theory Spec2Isabelle
  imports Complex_Main "HOL-Library.Multiset" "HOL-Library.Product_Lexorder"
begin

section \<open>Data model of \<open>scheduler_engine.py\<close>\<close>

text \<open>
  The optimizer works on Python dictionaries. A schedule entry is the dictionary built in
  \<open>create_comprehensive_schedule\<close>; its keys are the fields of the record \<open>entry\<close>.
  Clock times are the strings \<open>'HH:MM'\<close> written by \<open>strftime('%H:%M')\<close> and listed in
  \<open>Config.TIME_SLOTS\<close>; they are represented by their hour and minute. Database ids are integers,
  a nullable foreign key is an \<open>int option\<close>.
\<close>

type_synonym clock = "nat \<times> nat"

record entry =
  subject_id :: int
  batch_id :: int
  faculty_id :: "int option"
  venue_id :: int
  venue_type :: string
  day :: string
  start_time :: clock
  end_time :: clock
  is_fixed :: bool
  shift :: string
  class_type :: string
  priority :: int

text \<open>The rows the optimizer reads (\<open>models.py\<close>), with the columns the engine uses.\<close>

record classroom =
  room_id :: int
  room_capacity :: int
  room_available :: bool

record laboratory =
  lab_id :: int
  lab_capacity :: int
  lab_available :: bool

record faculty =
  fac_id :: int
  max_hours_per_day :: int
  max_hours_per_week :: int

record subject =
  subj_id :: int
  subj_faculty_id :: "int option"
  subj_semester_id :: "int option"
  theory_hours_per_week :: int
  lab_hours_per_week :: int

record batch =
  b_id :: int
  student_count :: int
  max_classes_per_day :: int
  b_semester_id :: "int option"

record special_class =
  sc_subject_id :: int
  sc_batch_id :: int
  sc_day_of_week :: int
  sc_start_time :: clock
  sc_end_time :: clock
  sc_class_type :: string
  sc_priority :: int

text \<open>The tables of the external store that \<open>load_data\<close> queries.\<close>

record database =
  db_classrooms :: "classroom list"
  db_laboratories :: "laboratory list"
  db_faculty :: "faculty list"
  db_subjects :: "subject list"
  db_batches :: "batch list"
  db_special_classes :: "special_class list"

text \<open>
  The fields of \<open>AdvancedTimetableOptimizer\<close> that are read during a run. A special class is kept
  together with the subject row it was joined with (\<open>special.subject\<close>).
\<close>

record optimizer =
  classrooms :: "classroom list"
  laboratories :: "laboratory list"
  faculty_rows :: "faculty list"
  subjects :: "subject list"
  batches :: "batch list"
  special_classes :: "(special_class \<times> subject) list"
  population_size :: nat
  generations :: nat
  mutation_rate :: real
  crossover_rate :: real

text \<open>A conflict dictionary appended to \<open>self.conflicts\<close>; absent keys are \<open>None\<close>.\<close>

record conflict =
  c_type :: string
  c_subject :: "int option"
  c_batch_id :: int
  c_day :: string
  c_count :: "nat option"
  c_limit :: "int option"
  c_reason :: string

datatype py_error = ValueError | IndexError

subsection \<open>Constants of \<open>Config.py\<close>\<close>

definition WORKING_DAYS :: "string list" where
  "WORKING_DAYS = [''Monday'', ''Tuesday'', ''Wednesday'', ''Thursday'', ''Friday'']"

definition TIME_SLOTS :: "(clock \<times> clock) list" where
  "TIME_SLOTS =
     [((9, 0), (10, 0)), ((10, 0), (11, 0)), ((11, 0), (12, 0)), ((12, 0), (13, 0)),
      ((13, 0), (14, 0)), ((14, 0), (15, 0)), ((15, 0), (16, 0)), ((16, 0), (17, 0)),
      ((17, 0), (18, 0))]"

definition MAX_CLASSES_PER_DAY :: int where
  "MAX_CLASSES_PER_DAY = 8"

definition MIN_CLASSROOM_UTILIZATION :: real where
  "MIN_CLASSROOM_UTILIZATION = 6 / 10"

definition MAX_CLASSROOM_UTILIZATION :: real where
  "MAX_CLASSROOM_UTILIZATION = 85 / 100"

text \<open>\<open>Config.OPTIMIZATION_WEIGHTS\<close>, one constant for each key the fitness function reads.\<close>

definition w_room_conflicts :: real where "w_room_conflicts = 200"
definition w_faculty_conflicts :: real where "w_faculty_conflicts = 200"
definition w_batch_conflicts :: real where "w_batch_conflicts = 200"
definition w_lab_conflicts :: real where "w_lab_conflicts = 180"
definition w_capacity_violations :: real where "w_capacity_violations = 160"
definition w_shift_violations :: real where "w_shift_violations = 140"
definition w_max_classes_per_day :: real where "w_max_classes_per_day = 120"
definition w_faculty_availability_violations :: real where
  "w_faculty_availability_violations = 150"
definition w_special_class_violations :: real where "w_special_class_violations = 300"
definition w_lab_duration_violations :: real where "w_lab_duration_violations = 100"
definition w_classroom_utilization :: real where "w_classroom_utilization = 50"
definition w_lab_utilization :: real where "w_lab_utilization = 60"
definition w_faculty_load_balance :: real where "w_faculty_load_balance = 40"
definition w_elective_sync_violations :: real where "w_elective_sync_violations = 70"

section \<open>The random module\<close>

text \<open>
  Python's \<open>random\<close> is a global generator. It is modelled by an arbitrary sequence of
  natural-number draws \<open>rnd\<close> and the position of the next draw, which every call advances.
  \<open>random.random()\<close> is a multiple of \<open>2\<^sup>-\<^sup>5\<^sup>3\<close> in \<open>[0, 1)\<close>; \<open>random.choice\<close> indexes the
  sequence with a draw below its length; \<open>random.randint(a, b)\<close> raises \<open>ValueError\<close> on an
  empty range; \<open>random.sample\<close> selects without replacement from a shrinking pool.
\<close>

type_synonym rand = "nat \<Rightarrow> nat"

definition random_random :: "rand \<Rightarrow> nat \<Rightarrow> real \<times> nat" where
  "random_random rnd p = (real_of_int (int (rnd p) mod 2 ^ 53) / 2 ^ 53, Suc p)"

definition random_choice :: "rand \<Rightarrow> nat \<Rightarrow> 'a list \<Rightarrow> py_error + ('a \<times> nat)" where
  "random_choice rnd p xs =
     (if xs = [] then Inl IndexError else Inr (xs ! (rnd p mod length xs), Suc p))"

definition random_randint :: "rand \<Rightarrow> nat \<Rightarrow> int \<Rightarrow> int \<Rightarrow> py_error + (int \<times> nat)" where
  "random_randint rnd p a b =
     (if b < a then Inl ValueError else Inr (a + int (rnd p mod nat (b - a + 1)), Suc p))"

fun random_sample :: "rand \<Rightarrow> nat \<Rightarrow> 'a list \<Rightarrow> nat \<Rightarrow> 'a list \<times> nat" where
  "random_sample rnd p pool 0 = ([], p)"
| "random_sample rnd p pool (Suc k) =
     (let j = rnd p mod length pool;
          (rest, p') = random_sample rnd (Suc p) (butlast (pool[j := last pool])) k
      in (pool ! j # rest, p'))"

section \<open>Recombination and mutation\<close>

text \<open>
  Every schedule entry is a dictionary object. Candidates are lists of references to such
  objects; \<open>list.copy()\<close> and slicing copy the list, never the dictionaries, so different
  candidates share entries. The store maps a reference (an index) to the current value of the
  dictionary it names.
\<close>

type_synonym ref = nat
type_synonym individual = "ref list"

text \<open>
  \<open>enhanced_crossover\<close>: one draw decides whether to recombine; the cut point is
  \<open>random.randint(1, min(len(parent1), len(parent2)) - 1)\<close>.
\<close>

definition enhanced_crossover ::
  "rand \<Rightarrow> real \<Rightarrow> 'a list \<Rightarrow> 'a list \<Rightarrow> nat \<Rightarrow> py_error + ('a list \<times> 'a list \<times> nat)" where
  "enhanced_crossover rnd rate parent1 parent2 p =
     (let (u, p1) = random_random rnd p in
      if u > rate \<or> length parent1 = 0 \<or> length parent2 = 0
      then Inr (parent1, parent2, p1)
      else
        (case random_randint rnd p1 1 (int (min (length parent1) (length parent2)) - 1) of
           Inl e \<Rightarrow> Inl e
         | Inr (crossover_point, p2) \<Rightarrow>
             let c = nat crossover_point in
             Inr (take c parent1 @ drop c parent2, take c parent2 @ drop c parent1, p2)))"

text \<open>
  One iteration of the loop of \<open>comprehensive_mutation\<close> on the dictionary \<open>e\<close>: a draw
  against the mutation rate, the skip of fixed classes, the choice among
  \<open>['day', 'time', 'venue']\<close> and the reassignment.
\<close>

definition mutate_venue :: "optimizer \<Rightarrow> rand \<Rightarrow> nat \<Rightarrow> entry \<Rightarrow> entry \<times> nat" where
  "mutate_venue opt rnd p e =
     (if class_type e = ''lab'' then
        (case random_choice rnd p (laboratories opt) of
           Inl _ \<Rightarrow> (e, p)
         | Inr (l, p') \<Rightarrow> (e\<lparr>venue_id := lab_id l, venue_type := ''laboratory''\<rparr>, p'))
      else
        (case random_choice rnd p (classrooms opt) of
           Inl _ \<Rightarrow> (e, p)
         | Inr (c, p') \<Rightarrow> (e\<lparr>venue_id := room_id c, venue_type := ''classroom''\<rparr>, p')))"

definition mutate_entry :: "optimizer \<Rightarrow> rand \<Rightarrow> nat \<Rightarrow> entry \<Rightarrow> entry \<times> nat" where
  "mutate_entry opt rnd p e =
     (let (u, p1) = random_random rnd p in
      if u < mutation_rate opt then
        if is_fixed e then (e, p1)
        else
          (let mutation_type = [''day'', ''time'', ''venue''] ! (rnd p1 mod 3); p2 = Suc p1 in
           if mutation_type = ''day'' then
             (e\<lparr>day := WORKING_DAYS ! (rnd p2 mod length WORKING_DAYS)\<rparr>, Suc p2)
           else if mutation_type = ''time'' then
             (let new_slot = TIME_SLOTS ! (rnd p2 mod length TIME_SLOTS)
              in (e\<lparr>start_time := fst new_slot, end_time := snd new_slot\<rparr>, Suc p2))
           else mutate_venue opt rnd p2 e)
      else (e, p1))"

text \<open>
  \<open>comprehensive_mutation\<close> walks the candidate and updates the dictionaries in place: the
  store changes, the list of references is returned as it was.
\<close>

fun mutation_loop :: "optimizer \<Rightarrow> rand \<Rightarrow> ref list \<Rightarrow> entry list \<times> nat \<Rightarrow> entry list \<times> nat" where
  "mutation_loop opt rnd [] (st, p) = (st, p)"
| "mutation_loop opt rnd (r # rs) (st, p) =
     (let (e', p') = mutate_entry opt rnd p (st ! r)
      in mutation_loop opt rnd rs (st[r := e'], p'))"

definition comprehensive_mutation ::
  "optimizer \<Rightarrow> rand \<Rightarrow> individual \<Rightarrow> entry list \<times> nat \<Rightarrow> individual \<times> entry list \<times> nat" where
  "comprehensive_mutation opt rnd individual s =
     (if length individual = 0 then (individual, s)
      else (individual, mutation_loop opt rnd individual s))"

section \<open>Candidate construction\<close>

text \<open>
  \<open>load_data\<close> with \<open>initialize_parameters\<close>: the queries of the constructor, for the semester
  \<open>semester_id\<close>. Special classes are joined with their subject and kept when the subject belongs to
  the semester. The four search parameters come from the configuration.
\<close>

definition load_data :: "database \<Rightarrow> int \<Rightarrow> nat \<Rightarrow> nat \<Rightarrow> real \<Rightarrow> real \<Rightarrow> optimizer" where
  "load_data db semester_id pop gens mrate crate =
     \<lparr>classrooms = filter room_available (db_classrooms db),
      laboratories = filter lab_available (db_laboratories db),
      faculty_rows = db_faculty db,
      subjects = filter (\<lambda>s. subj_semester_id s = Some semester_id) (db_subjects db),
      batches = filter (\<lambda>b. b_semester_id b = Some semester_id) (db_batches db),
      special_classes =
        [(special, s). special \<leftarrow> db_special_classes db, s \<leftarrow> db_subjects db,
           subj_id s = sc_subject_id special \<and> subj_semester_id s = Some semester_id],
      population_size = pop, generations = gens, mutation_rate = mrate, crossover_rate = crate\<rparr>"

definition get_suitable_venue :: "subject \<Rightarrow> int \<Rightarrow> (int \<times> string) option" where
  "get_suitable_venue subj batch = Some (1, ''classroom'')"

definition convert_day_number_to_name :: "int \<Rightarrow> string" where
  "convert_day_number_to_name day_number =
     (case map_of [(1, ''Monday''), (2, ''Tuesday''), (3, ''Wednesday''), (4, ''Thursday''),
                   (5, ''Friday'')] day_number of
        Some d \<Rightarrow> d
      | None \<Rightarrow> ''Monday'')"

definition get_time_shift :: "clock \<Rightarrow> string" where
  "get_time_shift time_obj = (if fst time_obj < 14 then ''morning'' else ''evening'')"

definition schedule_lab_sessions :: "optimizer \<Rightarrow> entry list" where
  "schedule_lab_sessions opt = []"

definition schedule_electives_advanced :: "optimizer \<Rightarrow> entry list" where
  "schedule_electives_advanced opt = []"

definition schedule_theory_classes :: "optimizer \<Rightarrow> entry list \<Rightarrow> entry list" where
  "schedule_theory_classes opt existing_schedule = []"

definition reschedule_to_different_day ::
  "entry \<Rightarrow> (int \<times> string \<Rightarrow> nat) \<Rightarrow> int \<Rightarrow> entry option" where
  "reschedule_to_different_day e batch_daily_count max_classes = None"

text \<open>Step 1 of \<open>create_comprehensive_schedule\<close>: one fixed entry for each special class.\<close>

fun schedule_special_classes :: "(special_class \<times> subject) list \<Rightarrow> entry list" where
  "schedule_special_classes [] = []"
| "schedule_special_classes ((special, subj) # rest) =
     (case get_suitable_venue subj (sc_batch_id special) of
        Some venue \<Rightarrow>
          \<lparr>subject_id = sc_subject_id special,
           batch_id = sc_batch_id special,
           faculty_id = subj_faculty_id subj,
           venue_id = fst venue,
           venue_type = snd venue,
           day = convert_day_number_to_name (sc_day_of_week special),
           start_time = sc_start_time special,
           end_time = sc_end_time special,
           is_fixed = True,
           shift = get_time_shift (sc_start_time special),
           class_type = sc_class_type special,
           priority = sc_priority special\<rparr> # schedule_special_classes rest
      | None \<Rightarrow> schedule_special_classes rest)"

text \<open>
  \<open>enforce_max_classes_per_day\<close>. The sort is Python's stable sort on the key
  \<open>(not is_fixed, priority)\<close>. The nested dictionary \<open>batch_daily_count\<close>, whose missing keys the
  loop initialises to zero, is a function from (batch, day) to the counter. The cap of a batch is
  that of the first row of \<open>self.batches\<close> with its id, and \<open>Config.MAX_CLASSES_PER_DAY\<close> when there
  is none.
\<close>

definition batch_max_classes :: "optimizer \<Rightarrow> int \<Rightarrow> int" where
  "batch_max_classes opt bid =
     (case find (\<lambda>b. b_id b = bid) (batches opt) of
        Some b \<Rightarrow> max_classes_per_day b
      | None \<Rightarrow> MAX_CLASSES_PER_DAY)"

definition fixed_conflict :: "int \<Rightarrow> string \<Rightarrow> nat \<Rightarrow> int \<Rightarrow> conflict" where
  "fixed_conflict b d n cap =
     \<lparr>c_type = ''max_classes_exceeded'', c_subject = None, c_batch_id = b, c_day = d,
      c_count = Some n, c_limit = Some cap, c_reason = ''Fixed class caused limit exceeded''\<rparr>"

definition dropped_conflict :: "entry \<Rightarrow> conflict" where
  "dropped_conflict e =
     \<lparr>c_type = ''max_classes_exceeded'', c_subject = Some (subject_id e), c_batch_id = batch_id e,
      c_day = day e, c_count = None, c_limit = None,
      c_reason = ''Could not reschedule within daily limit''\<rparr>"

fun enforce_loop ::
  "optimizer \<Rightarrow> entry list \<Rightarrow> entry list \<times> (int \<times> string \<Rightarrow> nat) \<times> conflict list
     \<Rightarrow> entry list \<times> (int \<times> string \<Rightarrow> nat) \<times> conflict list" where
  "enforce_loop opt [] acc = acc"
| "enforce_loop opt (e # rest) (adjusted_schedule, batch_daily_count, confs) =
     (let b = batch_id e; d = day e; max_classes = batch_max_classes opt b in
      if int (batch_daily_count (b, d)) < max_classes then
        enforce_loop opt rest
          (adjusted_schedule @ [e],
           batch_daily_count((b, d) := batch_daily_count (b, d) + 1), confs)
      else if is_fixed e then
        enforce_loop opt rest
          (adjusted_schedule @ [e],
           batch_daily_count((b, d) := batch_daily_count (b, d) + 1),
           confs @ [fixed_conflict b d (batch_daily_count (b, d) + 1) max_classes])
      else
        (case reschedule_to_different_day e batch_daily_count max_classes of
           Some rescheduled \<Rightarrow>
             enforce_loop opt rest
               (adjusted_schedule @ [rescheduled],
                batch_daily_count((b, day rescheduled) :=
                  batch_daily_count (b, day rescheduled) + 1), confs)
         | None \<Rightarrow>
             enforce_loop opt rest
               (adjusted_schedule, batch_daily_count, confs @ [dropped_conflict e])))"

definition enforce_max_classes_per_day ::
  "optimizer \<Rightarrow> entry list \<Rightarrow> conflict list \<Rightarrow> entry list \<times> conflict list" where
  "enforce_max_classes_per_day opt schedule confs =
     (let sorted_schedule = sort_key (\<lambda>x. (\<not> is_fixed x, priority x)) schedule;
          (adjusted_schedule, batch_daily_count, confs') =
             enforce_loop opt sorted_schedule ([], (\<lambda>_. 0), confs)
      in (adjusted_schedule, confs'))"

definition create_comprehensive_schedule ::
  "optimizer \<Rightarrow> conflict list \<Rightarrow> entry list \<times> conflict list" where
  "create_comprehensive_schedule opt confs =
     (let schedule = schedule_special_classes (special_classes opt);
          schedule = schedule @ schedule_lab_sessions opt;
          schedule = schedule @ schedule_electives_advanced opt;
          schedule = schedule @ schedule_theory_classes opt schedule
      in enforce_max_classes_per_day opt schedule confs)"

section \<open>Constraint evaluation\<close>

text \<open>
  A Python dictionary that accumulates a value for each key, \<open>d[k] = d.get(k, 0) + v\<close>, in insertion
  order. The nested dictionaries of the source, keyed by batch (or faculty) and then by day, are
  kept flat, keyed by the pair.
\<close>

fun dict_add :: "'k \<Rightarrow> 'v::plus \<Rightarrow> ('k \<times> 'v) list \<Rightarrow> ('k \<times> 'v) list" where
  "dict_add k v [] = [(k, v)]"
| "dict_add k v ((k', w) # m) = (if k = k' then (k', w + v) # m else (k', w) # dict_add k v m)"

text \<open>The checks that the source leaves as placeholders return zero for every schedule.\<close>

definition check_room_conflicts :: "optimizer \<Rightarrow> entry list \<Rightarrow> int" where
  "check_room_conflicts opt schedule = 0"

definition check_faculty_conflicts :: "optimizer \<Rightarrow> entry list \<Rightarrow> int" where
  "check_faculty_conflicts opt schedule = 0"

definition check_batch_conflicts :: "optimizer \<Rightarrow> entry list \<Rightarrow> int" where
  "check_batch_conflicts opt schedule = 0"

definition check_capacity_violations :: "optimizer \<Rightarrow> entry list \<Rightarrow> int" where
  "check_capacity_violations opt schedule = 0"

definition check_shift_violations :: "optimizer \<Rightarrow> entry list \<Rightarrow> int" where
  "check_shift_violations opt schedule = 0"

definition check_faculty_availability_violations :: "optimizer \<Rightarrow> entry list \<Rightarrow> int" where
  "check_faculty_availability_violations opt schedule = 0"

definition check_special_class_violations :: "optimizer \<Rightarrow> entry list \<Rightarrow> int" where
  "check_special_class_violations opt schedule = 0"

definition check_lab_conflicts :: "optimizer \<Rightarrow> entry list \<Rightarrow> int" where
  "check_lab_conflicts opt schedule = 0"

definition check_lab_duration_violations :: "optimizer \<Rightarrow> entry list \<Rightarrow> int" where
  "check_lab_duration_violations opt schedule = 0"

definition check_elective_sync_violations :: "optimizer \<Rightarrow> entry list \<Rightarrow> int" where
  "check_elective_sync_violations opt schedule = 0"

definition calculate_lab_utilization_score :: "optimizer \<Rightarrow> entry list \<Rightarrow> real" where
  "calculate_lab_utilization_score opt schedule = 0"

definition check_max_classes_per_day_violations :: "optimizer \<Rightarrow> entry list \<Rightarrow> int" where
  "check_max_classes_per_day_violations opt schedule =
     (let batch_daily_count = fold (\<lambda>e m. dict_add (batch_id e, day e) (1::nat) m) schedule []
      in sum_list
           (map (\<lambda>((b, d), count).
                   let max_classes = batch_max_classes opt b
                   in if int count > max_classes then int count - max_classes else 0)
              batch_daily_count))"

definition calculate_classroom_utilization_score :: "optimizer \<Rightarrow> entry list \<Rightarrow> real" where
  "calculate_classroom_utilization_score opt schedule =
     (let room_usage =
            fold (\<lambda>e m. if venue_type e = ''classroom'' then dict_add (venue_id e) (1::nat) m else m)
              schedule [];
          total_slots = length WORKING_DAYS * length TIME_SLOTS
      in if room_usage = [] then 0
         else
           (let total_rooms = length (classrooms opt);
                total_possible_usage = total_rooms * total_slots;
                actual_usage = sum_list (map snd room_usage);
                utilization_rate =
                  (if total_possible_usage > 0
                   then real actual_usage / real total_possible_usage else 0);
                min_util = MIN_CLASSROOM_UTILIZATION;
                max_util = MAX_CLASSROOM_UTILIZATION
            in if min_util \<le> utilization_rate \<and> utilization_rate \<le> max_util then 20
               else if min_util * (8 / 10) \<le> utilization_rate
                       \<and> utilization_rate \<le> max_util * (11 / 10) then 15
               else 5))"

text \<open>
  \<open>(end_time - start_time).seconds / 3600\<close>: the \<open>seconds\<close> field of a \<open>timedelta\<close> lies in
  \<open>[0, 86400)\<close>, a negative difference wraps around a day.
\<close>

definition clock_seconds :: "clock \<Rightarrow> int" where
  "clock_seconds t = (int (fst t) * 60 + int (snd t)) * 60"

definition duration_hours :: "entry \<Rightarrow> real" where
  "duration_hours e =
     real_of_int ((clock_seconds (end_time e) - clock_seconds (start_time e)) mod 86400) / 3600"

text \<open>
  \<open>variance ** 0.5\<close>. The square root is kept out of the code equations; the bands of the
  score are decided on the variance (lemma \<open>std_dev_band_code\<close> below).
\<close>

definition std_dev :: "real \<Rightarrow> real" where
  "std_dev variance = sqrt variance"

declare std_dev_def [code del]

definition std_dev_band :: "real \<Rightarrow> real" where
  "std_dev_band variance =
     (let sd = std_dev variance
      in if sd < 2 then 20 else if sd < 4 then 15 else if sd < 6 then 10 else 5)"

definition hours_variance :: "real list \<Rightarrow> real" where
  "hours_variance hours_list =
     (let avg_hours = sum_list hours_list / real (length hours_list)
      in sum_list (map (\<lambda>h. (h - avg_hours) ^ 2) hours_list) / real (length hours_list))"

definition calculate_faculty_load_balance_score :: "optimizer \<Rightarrow> entry list \<Rightarrow> real" where
  "calculate_faculty_load_balance_score opt schedule =
     (let faculty_hours = fold (\<lambda>e m. dict_add (faculty_id e) (duration_hours e) m) schedule [];
          faculty_daily_hours =
            fold (\<lambda>e m. dict_add (faculty_id e, day e) (duration_hours e) m) schedule [];
          violations =
            sum_list
              (map (\<lambda>(fid, weekly_hours).
                      case find (\<lambda>f. Some (fac_id f) = fid) (faculty_rows opt) of
                        None \<Rightarrow> 0
                      | Some f \<Rightarrow>
                          (if weekly_hours > real_of_int (max_hours_per_week f)
                           then weekly_hours - real_of_int (max_hours_per_week f) else 0)
                          + sum_list
                              (map (\<lambda>(k, daily_hours).
                                      if daily_hours > real_of_int (max_hours_per_day f)
                                      then daily_hours - real_of_int (max_hours_per_day f) else 0)
                                 (filter (\<lambda>(k, daily_hours). fst k = fid) faculty_daily_hours)))
                 faculty_hours);
          balance_score =
            (if faculty_hours = [] then 0 else std_dev_band (hours_variance (map snd faculty_hours)))
      in balance_score - violations)"

definition calculate_comprehensive_fitness :: "optimizer \<Rightarrow> entry list \<Rightarrow> real" where
  "calculate_comprehensive_fitness opt schedule =
     (let fitness_score = 1000;
          fitness_score = fitness_score
            - real_of_int (check_room_conflicts opt schedule) * w_room_conflicts;
          fitness_score = fitness_score
            - real_of_int (check_faculty_conflicts opt schedule) * w_faculty_conflicts;
          fitness_score = fitness_score
            - real_of_int (check_batch_conflicts opt schedule) * w_batch_conflicts;
          fitness_score = fitness_score
            - real_of_int (check_capacity_violations opt schedule) * w_capacity_violations;
          fitness_score = fitness_score
            - real_of_int (check_shift_violations opt schedule) * w_shift_violations;
          fitness_score = fitness_score
            - real_of_int (check_max_classes_per_day_violations opt schedule)
              * w_max_classes_per_day;
          fitness_score = fitness_score
            - real_of_int (check_faculty_availability_violations opt schedule)
              * w_faculty_availability_violations;
          fitness_score = fitness_score
            - real_of_int (check_special_class_violations opt schedule)
              * w_special_class_violations;
          fitness_score = fitness_score
            - real_of_int (check_lab_conflicts opt schedule) * w_lab_conflicts;
          fitness_score = fitness_score
            - real_of_int (check_lab_duration_violations opt schedule)
              * w_lab_duration_violations;
          fitness_score = fitness_score
            - real_of_int (check_elective_sync_violations opt schedule)
              * w_elective_sync_violations;
          fitness_score = fitness_score
            + calculate_classroom_utilization_score opt schedule * w_classroom_utilization;
          fitness_score = fitness_score
            + calculate_lab_utilization_score opt schedule * w_lab_utilization;
          fitness_score = fitness_score
            + calculate_faculty_load_balance_score opt schedule * w_faculty_load_balance
      in max 0 fitness_score)"

text \<open>\<open>calculate_solution_metrics\<close>, on the entries of the schedule and the conflicts of the run.\<close>

record metrics =
  total_classes_scheduled :: nat
  theory_classes :: nat
  lab_classes :: nat
  elective_classes :: nat
  fixed_classes :: nat
  classroom_utilization :: real
  lab_utilization :: real
  faculty_load_balance :: real
  max_classes_per_day_violations :: nat
  conflict_summary :: "(string \<times> nat) list"
  total_conflicts :: nat

definition calculate_solution_metrics :: "optimizer \<Rightarrow> entry list \<Rightarrow> conflict list \<Rightarrow> metrics" where
  "calculate_solution_metrics opt schedule confs =
     (let classroom_usage = length (filter (\<lambda>s. venue_type s = ''classroom'') schedule);
          lab_usage = length (filter (\<lambda>s. venue_type s = ''laboratory'') schedule);
          total_classroom_slots =
            length (classrooms opt) * length WORKING_DAYS * length TIME_SLOTS;
          total_lab_slots = length (laboratories opt) * length WORKING_DAYS * length TIME_SLOTS;
          faculty_hours = fold (\<lambda>e m. dict_add (faculty_id e) (duration_hours e) m) schedule []
      in \<lparr>total_classes_scheduled = length schedule,
          theory_classes = length (filter (\<lambda>s. class_type s = ''theory'') schedule),
          lab_classes = length (filter (\<lambda>s. class_type s = ''lab'') schedule),
          elective_classes = 0,
          fixed_classes = length (filter is_fixed schedule),
          classroom_utilization =
            (if total_classroom_slots > 0
             then real classroom_usage / real total_classroom_slots * 100 else 0),
          lab_utilization =
            (if total_lab_slots > 0 then real lab_usage / real total_lab_slots * 100 else 0),
          faculty_load_balance =
            (if faculty_hours = [] then 0 else std_dev (hours_variance (map snd faculty_hours))),
          max_classes_per_day_violations = 0,
          conflict_summary = fold (\<lambda>c m. dict_add (c_type c) (1::nat) m) confs [],
          total_conflicts = length confs\<rparr>)"

section \<open>The evolutionary search\<close>

text \<open>
  \<open>np.argmax\<close> is the first index of the greatest element and raises \<open>ValueError\<close> on an
  empty sequence. \<open>np.argsort\<close> lists the indices by ascending value; numpy leaves the order of
  equal values open, here they keep their order.
\<close>

fun argmax_loop :: "real list \<Rightarrow> nat \<Rightarrow> nat \<Rightarrow> real \<Rightarrow> nat" where
  "argmax_loop [] i best v = best"
| "argmax_loop (x # xs) i best v =
     (if x > v then argmax_loop xs (Suc i) i x else argmax_loop xs (Suc i) best v)"

definition np_argmax :: "real list \<Rightarrow> py_error + nat" where
  "np_argmax xs = (case xs of [] \<Rightarrow> Inl ValueError | x # rest \<Rightarrow> Inr (argmax_loop rest 1 0 x))"

definition np_argsort :: "real list \<Rightarrow> nat list" where
  "np_argsort xs = sort_key ((!) xs) [0..<length xs]"

definition tournament_selection ::
  "rand \<Rightarrow> nat \<Rightarrow> individual list \<Rightarrow> real list \<Rightarrow> py_error + (individual \<times> nat)" where
  "tournament_selection rnd p population fitness_scores =
     (let tournament_size = 3;
          (tournament_indices, p') =
             random_sample rnd p [0..<length population] (min tournament_size (length population));
          tournament_fitness = map ((!) fitness_scores) tournament_indices
      in case np_argmax tournament_fitness of
           Inl e \<Rightarrow> Inl e
         | Inr a \<Rightarrow> Inr (population ! (tournament_indices ! a), p'))"

text \<open>
  The inner \<open>while\<close> loop of a generation: two tournaments, crossover and two mutations add two
  offspring until the new population is full. The fitness scores are those computed at the start
  of the generation.
\<close>

function fill_population ::
  "optimizer \<Rightarrow> rand \<Rightarrow> individual list \<Rightarrow> real list \<Rightarrow> individual list \<Rightarrow> entry list \<times> nat
     \<Rightarrow> py_error + (individual list \<times> entry list \<times> nat)" where
  "fill_population opt rnd population fitness_scores new_population s =
     (if length new_population < population_size opt then
        (case tournament_selection rnd (snd s) population fitness_scores of
           Inl e \<Rightarrow> Inl e
         | Inr (parent1, p1) \<Rightarrow>
        (case tournament_selection rnd p1 population fitness_scores of
           Inl e \<Rightarrow> Inl e
         | Inr (parent2, p2) \<Rightarrow>
        (case enhanced_crossover rnd (crossover_rate opt) parent1 parent2 p2 of
           Inl e \<Rightarrow> Inl e
         | Inr (offspring1, offspring2, p3) \<Rightarrow>
             fill_population opt rnd population fitness_scores
               (new_population
                  @ [fst (comprehensive_mutation opt rnd offspring1 (fst s, p3)),
                     fst (comprehensive_mutation opt rnd offspring2
                            (snd (comprehensive_mutation opt rnd offspring1 (fst s, p3))))])
               (snd (comprehensive_mutation opt rnd offspring2
                       (snd (comprehensive_mutation opt rnd offspring1 (fst s, p3))))))))
      else Inr (new_population, s))"
  by pat_completeness auto
termination
  by (relation "measure (\<lambda>(opt, rnd, population, fitness_scores, new_population, s).
                   population_size opt - length new_population)") auto

text \<open>The variables of \<open>optimize_with_comprehensive_constraints\<close> that live across generations.\<close>

record ga_state =
  population :: "individual list"
  best_individual :: "individual option"
  best_fitness :: real
  best_fitness_history :: "real list"
  heap :: "entry list"
  rng_pos :: nat

definition individual_fitness :: "optimizer \<Rightarrow> entry list \<Rightarrow> individual \<Rightarrow> real" where
  "individual_fitness opt st individual = calculate_comprehensive_fitness opt (map ((!) st) individual)"

text \<open>
  The tracking of the best solution in one generation:
  \<open>if current_best_fitness > best_fitness\<close>, the best fitness and a copy of the best candidate
  are replaced. Indexing an empty population raises \<open>IndexError\<close>.
\<close>

definition track_best :: "real \<Rightarrow> nat \<Rightarrow> ga_state \<Rightarrow> py_error + ga_state" where
  "track_best current_best_fitness current_best_index s =
     (if current_best_fitness > best_fitness s then
        if current_best_index < length (population s) then
          Inr (s\<lparr>best_fitness := current_best_fitness,
                 best_individual := Some (population s ! current_best_index),
                 best_fitness_history := best_fitness_history s @ [current_best_fitness]\<rparr>)
        else Inl IndexError
      else Inr (s\<lparr>best_fitness_history := best_fitness_history s @ [current_best_fitness]\<rparr>))"

text \<open>
  One pass through the body of the generation loop. The Boolean is true when the body ends in
  \<open>break\<close> (a fitness of at least 900).
\<close>

definition generation :: "optimizer \<Rightarrow> rand \<Rightarrow> ga_state \<Rightarrow> py_error + (bool \<times> ga_state)" where
  "generation opt rnd s =
     (let fitness_scores = map (individual_fitness opt (heap s)) (population s);
          current_best_fitness = (if fitness_scores = [] then 0 else Max (set fitness_scores));
          current_best_index = (case np_argmax fitness_scores of Inl _ \<Rightarrow> 0 | Inr i \<Rightarrow> i)
      in case track_best current_best_fitness current_best_index s of
           Inl e \<Rightarrow> Inl e
         | Inr s1 \<Rightarrow>
             if current_best_fitness \<ge> 900 then Inr (True, s1)
             else
               (let elite_count = max 1 (population_size opt div 10);
                    sorted_indices = np_argsort fitness_scores;
                    elite_indices = drop (length sorted_indices - elite_count) sorted_indices;
                    new_population = map ((!) (population s)) elite_indices
                in case fill_population opt rnd (population s) fitness_scores new_population
                          (heap s1, rng_pos s1) of
                     Inl e \<Rightarrow> Inl e
                   | Inr (new_population, st, p) \<Rightarrow>
                       Inr (False, s1\<lparr>population := take (population_size opt) new_population,
                                      heap := st, rng_pos := p\<rparr>)))"

fun ga_loop :: "optimizer \<Rightarrow> rand \<Rightarrow> nat \<Rightarrow> ga_state \<Rightarrow> py_error + ga_state" where
  "ga_loop opt rnd 0 s = Inr s"
| "ga_loop opt rnd (Suc n) s =
     (case generation opt rnd s of
        Inl e \<Rightarrow> Inl e
      | Inr (stop, s') \<Rightarrow> if stop then Inr s' else ga_loop opt rnd n s')"

text \<open>
  The initial population: \<open>population_size\<close> calls of \<open>create_comprehensive_schedule\<close>. The
  dictionaries of each new schedule get fresh references at the end of the store; the conflicts
  accumulate in \<open>self.conflicts\<close>.
\<close>

fun initial_population ::
  "optimizer \<Rightarrow> nat \<Rightarrow> individual list \<times> entry list \<times> conflict list
     \<Rightarrow> individual list \<times> entry list \<times> conflict list" where
  "initial_population opt 0 acc = acc"
| "initial_population opt (Suc n) (pop, st, confs) =
     (let (schedule, confs') = create_comprehensive_schedule opt confs
      in initial_population opt n
           (pop @ [[length st..<length st + length schedule]], st @ schedule, confs'))"

text \<open>The state of the optimizer object and of the interpreter between calls.\<close>

record run_state =
  rs_heap :: "entry list"
  rs_conflicts :: "conflict list"
  rs_rng_pos :: nat

definition initial_ga_state :: "optimizer \<Rightarrow> run_state \<Rightarrow> ga_state \<times> conflict list" where
  "initial_ga_state opt rs =
     (let (pop0, st0, confs) =
            initial_population opt (population_size opt) ([], rs_heap rs, rs_conflicts rs)
      in (\<lparr>population = pop0, best_individual = None, best_fitness = 0,
           best_fitness_history = [], heap = st0, rng_pos = rs_rng_pos rs\<rparr>, confs))"

definition optimize_with_comprehensive_constraints ::
  "optimizer \<Rightarrow> rand \<Rightarrow> run_state \<Rightarrow> py_error + (individual \<times> real \<times> run_state)" where
  "optimize_with_comprehensive_constraints opt rnd rs =
     (let (s0, confs) = initial_ga_state opt rs
      in case ga_loop opt rnd (generations opt) s0 of
           Inl e \<Rightarrow> Inl e
         | Inr s \<Rightarrow>
             let rs' = \<lparr>rs_heap = heap s, rs_conflicts = confs, rs_rng_pos = rng_pos s\<rparr>
             in (case best_individual s of
                   Some best \<Rightarrow> Inr (best, best_fitness s, rs')
                 | None \<Rightarrow>
                     let best = (if population s = [] then [] else population s ! 0)
                     in Inr (best, individual_fitness opt (heap s) best, rs')))"

text \<open>
  The states of the search after each generation that \<open>ga_loop\<close> runs through, in order: the
  history of the variables of the loop, up to the \<open>break\<close>, an exception or the last generation.
\<close>

fun ga_trace :: "optimizer \<Rightarrow> rand \<Rightarrow> nat \<Rightarrow> ga_state \<Rightarrow> ga_state list" where
  "ga_trace opt rnd 0 s = []"
| "ga_trace opt rnd (Suc n) s =
     (case generation opt rnd s of
        Inl e \<Rightarrow> []
      | Inr (stop, s') \<Rightarrow> s' # (if stop then [] else ga_trace opt rnd n s'))"

text \<open>
  \<open>generate_multiple_optimized_solutions\<close>. Run \<open>i\<close> uses the mutation rate raised by
  \<open>i * 0.02\<close> and the population size raised by \<open>i * 5\<close>, and starts the next run with an empty
  conflict list. The final sort is Python's stable sort with \<open>reverse=True\<close>.
\<close>

record solution =
  sol_schedule :: individual
  sol_fitness :: real
  sol_metrics :: metrics
  sol_conflicts :: "conflict list"

fun solution_runs ::
  "optimizer \<Rightarrow> rand \<Rightarrow> nat list \<Rightarrow> solution list \<times> run_state
     \<Rightarrow> py_error + (solution list \<times> run_state)" where
  "solution_runs opt rnd [] acc = Inr acc"
| "solution_runs opt rnd (i # rest) (solutions, rs) =
     (let opt_i = opt\<lparr>mutation_rate := mutation_rate opt + real i * (2 / 100),
                      population_size := population_size opt + i * 5\<rparr>
      in case optimize_with_comprehensive_constraints opt_i rnd rs of
           Inl e \<Rightarrow> Inl e
         | Inr (sol, fitness, rs') \<Rightarrow>
             let ms = calculate_solution_metrics opt_i (map ((!) (rs_heap rs')) sol)
                        (rs_conflicts rs')
             in solution_runs opt rnd rest
                  (solutions @ [\<lparr>sol_schedule = sol, sol_fitness = fitness, sol_metrics = ms,
                                  sol_conflicts = rs_conflicts rs'\<rparr>],
                   rs'\<lparr>rs_conflicts := []\<rparr>))"

definition sort_descending :: "solution list \<Rightarrow> solution list" where
  "sort_descending solutions = rev (sort_key sol_fitness (rev solutions))"

definition generate_multiple_optimized_solutions ::
  "optimizer \<Rightarrow> rand \<Rightarrow> nat \<Rightarrow> run_state \<Rightarrow> py_error + (solution list \<times> run_state)" where
  "generate_multiple_optimized_solutions opt rnd num_solutions rs =
     (case solution_runs opt rnd [0..<num_solutions] ([], rs) of
        Inl e \<Rightarrow> Inl e
      | Inr (solutions, rs') \<Rightarrow> Inr (sort_descending solutions, rs'))"

section \<open>Example data\<close>

text \<open>
  A semester with one subject, one batch of 70 students, one classroom of capacity 60 and two
  special classes of ten hours each, taught by a faculty member whose hour limits are zero. The
  fitness of its schedule is 450, below the early-stopping threshold, so the search runs through
  selection, crossover and mutation.
\<close>

definition ex_subject :: subject where
  "ex_subject = \<lparr>subj_id = 1, subj_faculty_id = Some 7, subj_semester_id = Some 1,
                  theory_hours_per_week = 3, lab_hours_per_week = 0\<rparr>"

definition ex_special1 :: special_class where
  "ex_special1 = \<lparr>sc_subject_id = 1, sc_batch_id = 1, sc_day_of_week = 1, sc_start_time = (8, 0),
                   sc_end_time = (18, 0), sc_class_type = ''special'', sc_priority = 1\<rparr>"

definition ex_special2 :: special_class where
  "ex_special2 = \<lparr>sc_subject_id = 1, sc_batch_id = 1, sc_day_of_week = 2, sc_start_time = (8, 0),
                   sc_end_time = (18, 0), sc_class_type = ''special'', sc_priority = 2\<rparr>"

definition ex_db :: database where
  "ex_db = \<lparr>db_classrooms = [\<lparr>room_id = 1, room_capacity = 60, room_available = True\<rparr>],
            db_laboratories = [],
            db_faculty = [\<lparr>fac_id = 7, max_hours_per_day = 0, max_hours_per_week = 0\<rparr>],
            db_subjects = [ex_subject],
            db_batches = [\<lparr>b_id = 1, student_count = 70, max_classes_per_day = 6,
                           b_semester_id = Some 1\<rparr>],
            db_special_classes = [ex_special1, ex_special2]\<rparr>"

definition ex_opt :: optimizer where
  "ex_opt = load_data ex_db 1 2 2 (1 / 10) (8 / 10)"

definition ex_rnd :: rand where
  "ex_rnd = (\<lambda>_. 0)"

definition ex_rs :: run_state where
  "ex_rs = \<lparr>rs_heap = [], rs_conflicts = [], rs_rng_pos = 0\<rparr>"

text \<open>
  A semester whose only special class places a batch of 70 students in classroom 1, of capacity
  60, on Monday from 9:00 to 10:00, and the same semester with a classroom of capacity 80.
\<close>

definition cap_special :: special_class where
  "cap_special = \<lparr>sc_subject_id = 1, sc_batch_id = 1, sc_day_of_week = 1, sc_start_time = (9, 0),
                   sc_end_time = (10, 0), sc_class_type = ''special'', sc_priority = 1\<rparr>"

definition cap_db :: "int \<Rightarrow> database" where
  "cap_db room_cap =
     \<lparr>db_classrooms = [\<lparr>room_id = 1, room_capacity = room_cap, room_available = True\<rparr>],
      db_laboratories = [],
      db_faculty = [\<lparr>fac_id = 7, max_hours_per_day = 6, max_hours_per_week = 30\<rparr>],
      db_subjects = [ex_subject],
      db_batches = [\<lparr>b_id = 1, student_count = 70, max_classes_per_day = 6,
                     b_semester_id = Some 1\<rparr>],
      db_special_classes = [cap_special]\<rparr>"

definition cap_opt :: "int \<Rightarrow> optimizer" where
  "cap_opt room_cap = load_data (cap_db room_cap) 1 2 2 (1 / 10) (8 / 10)"

definition cap_entry :: entry where
  "cap_entry = \<lparr>subject_id = 1, batch_id = 1, faculty_id = Some 7, venue_id = 1,
                 venue_type = ''classroom'', day = ''Monday'', start_time = (9, 0),
                 end_time = (10, 0), is_fixed = True, shift = ''morning'',
                 class_type = ''special'', priority = 1\<rparr>"

text \<open>
  A semester with two special classes that \<open>get_suitable_venue\<close> both places in classroom 1 on
  Monday, from 9:00 to 10:00 for batch 1 and from 9:30 to 10:30 for batch 2, and the same two
  entries with the second one moved to Tuesday.
\<close>

definition clash_special :: special_class where
  "clash_special = \<lparr>sc_subject_id = 1, sc_batch_id = 2, sc_day_of_week = 1,
                     sc_start_time = (9, 30), sc_end_time = (10, 30),
                     sc_class_type = ''special'', sc_priority = 2\<rparr>"

definition clash_opt :: optimizer where
  "clash_opt =
     load_data
       ((cap_db 60)\<lparr>db_batches := [\<lparr>b_id = 1, student_count = 30, max_classes_per_day = 6,
                                         b_semester_id = Some 1\<rparr>,
                                       \<lparr>b_id = 2, student_count = 30, max_classes_per_day = 6,
                                         b_semester_id = Some 1\<rparr>],
                      db_special_classes := [cap_special, clash_special]\<rparr>)
       1 2 2 (1 / 10) (8 / 10)"

definition clash_entry :: entry where
  "clash_entry = cap_entry\<lparr>batch_id := 2, start_time := (9, 30), end_time := (10, 30),
                            priority := 2\<rparr>"

text \<open>
  Non-fixed and fixed entries of batch 1 for the daily cap: eight non-fixed entries on Monday
  under the cap of six, and a mixed schedule under a cap of one.
\<close>

definition free_entry :: "int \<Rightarrow> string \<Rightarrow> entry" where
  "free_entry i d = cap_entry\<lparr>subject_id := i, day := d, is_fixed := False, priority := 99\<rparr>"

definition fixed_entry :: "int \<Rightarrow> int \<Rightarrow> entry" where
  "fixed_entry i p = cap_entry\<lparr>subject_id := i, priority := p\<rparr>"

definition eight_free :: "entry list" where
  "eight_free = map (\<lambda>i. free_entry i ''Monday'') [1, 2, 3, 4, 5, 6, 7, 8]"

definition cap1_opt :: optimizer where
  "cap1_opt = ex_opt\<lparr>batches := [\<lparr>b_id = 1, student_count = 70, max_classes_per_day = 1,
                                    b_semester_id = Some 1\<rparr>]\<rparr>"

definition mixed_schedule :: "entry list" where
  "mixed_schedule =
     [free_entry 1 ''Monday'', fixed_entry 2 2, fixed_entry 3 1, free_entry 4 ''Tuesday'']"

text \<open>
  Two batches with different caps, one for the first row and two for the second, and a schedule
  with entries of both and of a batch that has no row.
\<close>

definition two_batch_opt :: optimizer where
  "two_batch_opt =
     ex_opt\<lparr>batches := [\<lparr>b_id = 1, student_count = 70, max_classes_per_day = 1,
                            b_semester_id = Some 1\<rparr>,
                          \<lparr>b_id = 2, student_count = 40, max_classes_per_day = 2,
                            b_semester_id = Some 1\<rparr>]\<rparr>"

definition two_batch_schedule :: "entry list" where
  "two_batch_schedule =
     [free_entry 1 ''Monday'', free_entry 2 ''Monday'',
      (free_entry 3 ''Monday'')\<lparr>batch_id := 2\<rparr>, (free_entry 4 ''Monday'')\<lparr>batch_id := 2\<rparr>,
      (free_entry 5 ''Monday'')\<lparr>batch_id := 2\<rparr>, (free_entry 6 ''Monday'')\<lparr>batch_id := 3\<rparr>,
      fixed_entry 9 1]"

definition two_batch_adjusted :: "entry list" where
  "two_batch_adjusted =
     [fixed_entry 9 1,
      (free_entry 3 ''Monday'')\<lparr>batch_id := 2\<rparr>, (free_entry 4 ''Monday'')\<lparr>batch_id := 2\<rparr>,
      (free_entry 6 ''Monday'')\<lparr>batch_id := 3\<rparr>]"

text \<open>The interpreter state after the first and after the second run on that semester.\<close>

definition cap_rs1 :: run_state where
  "cap_rs1 = \<lparr>rs_heap = replicate 2 cap_entry, rs_conflicts = [], rs_rng_pos = 0\<rparr>"

definition cap_rs2 :: run_state where
  "cap_rs2 = \<lparr>rs_heap = replicate 9 cap_entry, rs_conflicts = [], rs_rng_pos = 0\<rparr>"

text \<open>
  The initial state of the search on the first example with the second entry of each candidate
  made non-fixed, and a sequence of draws that reassigns a time slot.
\<close>

definition mixed_heap :: "entry list" where
  "mixed_heap =
     [fixed_entry 1 1, free_entry 2 ''Tuesday'', fixed_entry 1 1, free_entry 2 ''Tuesday'']"

definition slot_rnd :: rand where
  "slot_rnd = (\<lambda>p. if p = 2 then 1 else if p = 3 then 3 else 0)"

text \<open>
  The metrics and the solution of an empty schedule without conflicts, and the first example
  with its subject table emptied: a semester with zero subjects.
\<close>

definition empty_metrics :: metrics where
  "empty_metrics =
     \<lparr>total_classes_scheduled = 0, theory_classes = 0, lab_classes = 0, elective_classes = 0,
      fixed_classes = 0, classroom_utilization = 0, lab_utilization = 0,
      faculty_load_balance = 0, max_classes_per_day_violations = 0, conflict_summary = [],
      total_conflicts = 0\<rparr>"

definition empty_solution :: solution where
  "empty_solution =
     \<lparr>sol_schedule = [], sol_fitness = 1000, sol_metrics = empty_metrics, sol_conflicts = []\<rparr>"

definition no_subject_opt :: optimizer where
  "no_subject_opt = load_data (ex_db\<lparr>db_subjects := []\<rparr>) 1 2 2 (1 / 10) (8 / 10)"

definition ex_s0 :: ga_state where
  "ex_s0 = fst (initial_ga_state ex_opt ex_rs)"

definition mixed_s0 :: ga_state where
  "mixed_s0 = ex_s0\<lparr>heap := map (\<lambda>r. if odd r then (heap ex_s0 ! r)\<lparr>is_fixed := False\<rparr>
                                           else heap ex_s0 ! r) [0, 1, 2, 3]\<rparr>"

section \<open>Predicates used in the statements\<close>

text \<open>
  The relation between the tracked best of two successive states of the search: the best
  fitness does not decrease, and when the best candidate is replaced, the new one is a member of
  the evaluated population whose fitness, which becomes the tracked best fitness, is strictly
  higher than the old one.
\<close>

definition best_step :: "optimizer \<Rightarrow> ga_state \<Rightarrow> ga_state \<Rightarrow> bool" where
  "best_step opt a b \<longleftrightarrow>
     best_fitness a \<le> best_fitness b
     \<and> (best_individual b \<noteq> best_individual a \<longrightarrow>
          best_fitness a < best_fitness b
          \<and> (\<exists>c \<in> set (population a).
                best_individual b = Some c \<and> individual_fitness opt (heap a) c = best_fitness b))"

text \<open>
  A store \<open>st'\<close> preserves the fixed entries of a store \<open>st\<close> when it holds the same
  references and every dictionary that is fixed in \<open>st\<close> has the same value, field by field, in
  \<open>st'\<close>.
\<close>

definition fixed_preserved :: "entry list \<Rightarrow> entry list \<Rightarrow> bool" where
  "fixed_preserved st st' \<longleftrightarrow>
     length st' = length st \<and> (\<forall>r < length st. is_fixed (st ! r) \<longrightarrow> st' ! r = st ! r)"

text \<open>
  A candidate holds the schedule \<open>V\<close> under a store when its references are allocated and
  their dictionaries, read in order, are the entries of \<open>V\<close>. The invariant of the search for a
  schedule \<open>V\<close>: the population has \<open>population_size\<close> candidates, and every candidate and the
  tracked best candidate hold \<open>V\<close>.
\<close>

definition holds_schedule :: "entry list \<Rightarrow> entry list \<Rightarrow> individual \<Rightarrow> bool" where
  "holds_schedule V st ind \<longleftrightarrow> (\<forall>r \<in> set ind. r < length st) \<and> map ((!) st) ind = V"


section \<open>Properties\<close>

subsection \<open>Crossover\<close>

lemma random_randint_range:
  assumes "random_randint rnd p a b = Inr (c, p')"
  shows "a \<le> c \<and> c \<le> b"
proof -
  from assms have ab: "a \<le> b" and c: "c = a + int (rnd p mod nat (b - a + 1))"
    by (auto simp: random_randint_def split: if_splits)
  have "rnd p mod nat (b - a + 1) < nat (b - a + 1)"
    using ab by (intro mod_less_divisor) simp
  with ab c show ?thesis by linarith
qed

lemma mset_swap_tails:
  "mset (take c xs @ drop c ys) + mset (take c ys @ drop c xs) = mset xs + mset ys"
proof -
  have "mset (take c xs @ drop c ys) + mset (take c ys @ drop c xs)
        = mset (take c xs @ drop c xs) + mset (take c ys @ drop c ys)"
    by (simp only: mset_append ac_simps)
  then show ?thesis by simp
qed

text \<open>
  Claim C10. For two parents with at least two entries each, \<open>enhanced_crossover\<close> returns
  (it does not raise), and the two offspring together hold exactly the entries of the two
  parents together, as a multiset of entry objects and hence, under every store, as a multiset
  of entry values. When the draw exceeds the crossover rate, each offspring is its parent.
\<close>

theorem crossover_preserves_entries:
  assumes "2 \<le> length parent1" and "2 \<le> length parent2"
  shows "\<exists>o1 o2 p'. enhanced_crossover rnd rate parent1 parent2 p = Inr (o1, o2, p')
           \<and> mset o1 + mset o2 = mset parent1 + mset parent2
           \<and> image_mset ((!) st) (mset o1) + image_mset ((!) st) (mset o2)
               = image_mset ((!) st) (mset parent1) + image_mset ((!) st) (mset parent2)
           \<and> (fst (random_random rnd p) > rate \<longrightarrow> o1 = parent1 \<and> o2 = parent2)"
proof -
  obtain u p1 where u: "random_random rnd p = (u, p1)" by (cases "random_random rnd p")
  show ?thesis
  proof (cases "u > rate")
    case True
    with u assms show ?thesis by (simp add: enhanced_crossover_def)
  next
    case False
    let ?m = "int (min (length parent1) (length parent2)) - 1"
    from assms have "\<not> ?m < 1" by simp
    then obtain c p2 where r: "random_randint rnd p1 1 ?m = Inr (c, p2)"
      by (simp add: random_randint_def)
    let ?o1 = "take (nat c) parent1 @ drop (nat c) parent2"
    let ?o2 = "take (nat c) parent2 @ drop (nat c) parent1"
    from assms have ne: "parent1 \<noteq> []" "parent2 \<noteq> []" by auto
    from False u ne r
    have run: "enhanced_crossover rnd rate parent1 parent2 p = Inr (?o1, ?o2, p2)"
      by (simp add: enhanced_crossover_def Let_def)
    have m: "mset ?o1 + mset ?o2 = mset parent1 + mset parent2"
      by (rule mset_swap_tails)
    have "image_mset ((!) st) (mset ?o1 + mset ?o2)
            = image_mset ((!) st) (mset parent1 + mset parent2)"
      by (simp only: m)
    then have v: "image_mset ((!) st) (mset ?o1) + image_mset ((!) st) (mset ?o2)
            = image_mset ((!) st) (mset parent1) + image_mset ((!) st) (mset parent2)"
      by (simp only: image_mset_union)
    from run m v False u show ?thesis by simp
  qed
qed

theorem crossover_preserves_entries_witness:
  "\<exists>o1 o2 p'. enhanced_crossover (\<lambda>_. 0) (8 / 10) [0, 1, 2 :: nat] [3, 4, 5] 0 = Inr (o1, o2, p')
     \<and> mset o1 + mset o2 = mset [0, 1, 2] + mset [3, 4, 5]
     \<and> o1 = [0, 4, 5] \<and> o2 = [3, 1, 2]"
proof -
  have run: "enhanced_crossover (\<lambda>_. 0) (8 / 10) [0, 1, 2 :: nat] [3, 4, 5] 0
               = Inr ([0, 4, 5], [3, 1, 2], 2)"
    by (simp add: enhanced_crossover_def random_random_def random_randint_def)
  from crossover_preserves_entries [of "[0, 1, 2 :: nat]" "[3, 4, 5]" "\<lambda>_. 0" "8 / 10" 0 "[]"]
  show ?thesis unfolding run by auto
qed

subsection \<open>Selection helpers\<close>

lemma argmax_loop_max:
  assumes "b < i" "i \<le> length ys" "ys ! b = v" "Max (set (take i ys)) = v"
  shows "argmax_loop (drop i ys) i b v < length ys
         \<and> ys ! argmax_loop (drop i ys) i b v = Max (set ys)"
  using assms
proof (induction "length ys - i" arbitrary: i b v)
  case 0
  then have "i = length ys" by simp
  with 0 show ?case by simp
next
  case (Suc k)
  then have lt: "i < length ys" by simp
  then have d: "drop i ys = ys ! i # drop (Suc i) ys" by (simp add: Cons_nth_drop_Suc)
  have t: "set (take (Suc i) ys) = insert (ys ! i) (set (take i ys))"
    using lt by (simp add: take_Suc_conv_app_nth)
  have ne: "set (take i ys) \<noteq> {}" using Suc.prems(1) lt by auto
  have mx: "Max (set (take (Suc i) ys)) = max (ys ! i) v"
    unfolding t using ne Suc.prems(4) by simp
  have k: "k = length ys - Suc i" using Suc.hyps(2) by simp
  show ?case
  proof (cases "ys ! i > v")
    case True
    then have m: "Max (set (take (Suc i) ys)) = ys ! i" using mx by simp
    have "argmax_loop (drop (Suc i) ys) (Suc i) i (ys ! i) < length ys
         \<and> ys ! argmax_loop (drop (Suc i) ys) (Suc i) i (ys ! i) = Max (set ys)"
      by (rule Suc.hyps(1)[OF k]) (use lt m in simp_all)
    moreover have "argmax_loop (drop i ys) i b v = argmax_loop (drop (Suc i) ys) (Suc i) i (ys ! i)"
      by (subst d) (simp add: True)
    ultimately show ?thesis by simp
  next
    case False
    then have m: "Max (set (take (Suc i) ys)) = v" using mx by simp
    have "argmax_loop (drop (Suc i) ys) (Suc i) b v < length ys
         \<and> ys ! argmax_loop (drop (Suc i) ys) (Suc i) b v = Max (set ys)"
      by (rule Suc.hyps(1)[OF k]) (use lt m Suc.prems in simp_all)
    moreover have "argmax_loop (drop i ys) i b v = argmax_loop (drop (Suc i) ys) (Suc i) b v"
      by (subst d) (simp add: False)
    ultimately show ?thesis by simp
  qed
qed

lemma np_argmax_max:
  assumes "np_argmax xs = Inr i"
  shows "i < length xs \<and> xs ! i = Max (set xs)"
proof (cases xs)
  case Nil
  with assms show ?thesis by (simp add: np_argmax_def)
next
  case (Cons x rest)
  with assms have i: "i = argmax_loop rest 1 0 x" by (simp add: np_argmax_def)
  have "argmax_loop (drop 1 xs) 1 0 x < length xs
         \<and> xs ! argmax_loop (drop 1 xs) 1 0 x = Max (set xs)"
    by (rule argmax_loop_max) (simp_all add: Cons)
  with Cons i show ?thesis by simp
qed

subsection \<open>Evaluation and tracking of the best candidate\<close>

lemma std_dev_band_code [code]:
  "std_dev_band v = (if v < 4 then 20 else if v < 16 then 15 else if v < 36 then 10 else 5)"
proof -
  have a: "sqrt v < 2 \<longleftrightarrow> v < 4" using real_sqrt_less_iff [of v 4] by simp
  have b: "sqrt v < 4 \<longleftrightarrow> v < 16" using real_sqrt_less_iff [of v 16] by simp
  have c: "sqrt v < 6 \<longleftrightarrow> v < 36" using real_sqrt_less_iff [of v 36] by simp
  show ?thesis by (simp add: std_dev_band_def std_dev_def a b c)
qed

lemma fitness_nonneg: "0 \<le> calculate_comprehensive_fitness opt schedule"
  by (simp add: calculate_comprehensive_fitness_def Let_def)

lemma track_best_mono:
  assumes "track_best f i s = Inr s1"
  shows "best_fitness s \<le> best_fitness s1"
    and "best_individual s1 \<noteq> best_individual s \<Longrightarrow>
           best_fitness s < best_fitness s1 \<and> best_fitness s1 = f
           \<and> i < length (population s) \<and> best_individual s1 = Some (population s ! i)"
    and "best_individual s1 = None \<Longrightarrow> best_fitness s1 = best_fitness s"
    and "best_individual s1 = None \<Longrightarrow> best_individual s = None"
    and "population s1 = population s" and "heap s1 = heap s" and "rng_pos s1 = rng_pos s"
  using assms by (auto simp: track_best_def split: if_splits)

lemma generation_best:
  assumes "generation opt rnd s = Inr (stop, s')"
  shows "best_step opt s s'"
    and "best_individual s' = None \<Longrightarrow> best_fitness s' = best_fitness s"
    and "best_individual s' = None \<Longrightarrow> best_individual s = None"
proof -
  let ?fs = "map (individual_fitness opt (heap s)) (population s)"
  let ?f = "if ?fs = [] then 0 else Max (set ?fs)"
  let ?i = "case np_argmax ?fs of Inl _ \<Rightarrow> 0 | Inr i \<Rightarrow> i"
  from assms obtain s1 where t: "track_best ?f ?i s = Inr s1"
    and b: "best_fitness s' = best_fitness s1" "best_individual s' = best_individual s1"
    by (auto simp: generation_def Let_def split: sum.splits if_splits)
  show "best_individual s' = None \<Longrightarrow> best_fitness s' = best_fitness s"
    using track_best_mono(3)[OF t] b by simp
  show "best_individual s' = None \<Longrightarrow> best_individual s = None"
    using track_best_mono(4)[OF t] b by simp
  have le: "best_fitness s \<le> best_fitness s'" using track_best_mono(1)[OF t] b by simp
  have "best_fitness s < best_fitness s'
          \<and> (\<exists>c \<in> set (population s).
                best_individual s' = Some c \<and> individual_fitness opt (heap s) c = best_fitness s')"
    if ch: "best_individual s' \<noteq> best_individual s"
  proof -
    from track_best_mono(2)[OF t] ch b
    have lt: "best_fitness s < best_fitness s'" and f: "best_fitness s' = ?f"
      and i: "?i < length (population s)" and bi: "best_individual s' = Some (population s ! ?i)"
      by simp_all
    from i have ne: "?fs \<noteq> []" by auto
    then obtain j where j: "np_argmax ?fs = Inr j" by (cases ?fs) (simp_all add: np_argmax_def)
    from np_argmax_max[OF j] have jl: "j < length (population s)" and jm: "?fs ! j = Max (set ?fs)"
      by simp_all
    have "individual_fitness opt (heap s) (population s ! j) = best_fitness s'"
      using jl jm f ne by simp
    moreover have "population s ! j \<in> set (population s)" using jl by simp
    ultimately show ?thesis using lt bi j by auto
  qed
  with le show "best_step opt s s'" by (simp add: best_step_def)
qed

lemma ga_trace_successively:
  "successively (best_step opt) (s # ga_trace opt rnd n s)"
proof (induction n arbitrary: s)
  case 0
  show ?case by simp
next
  case (Suc n)
  show ?case
  proof (cases "generation opt rnd s")
    case (Inl e)
    then show ?thesis by simp
  next
    case (Inr r)
    obtain stop s' where r: "r = (stop, s')" by (cases r)
    from generation_best(1)[of opt rnd s stop s'] Inr r have st: "best_step opt s s'" by simp
    show ?thesis using Inr r st Suc.IH[of s'] by (cases stop) simp_all
  qed
qed

lemma ga_loop_last:
  "ga_loop opt rnd n s = Inr s' \<Longrightarrow> s' = last (s # ga_trace opt rnd n s)"
proof (induction n arbitrary: s)
  case 0
  then show ?case by simp
next
  case (Suc n)
  show ?case
  proof (cases "generation opt rnd s")
    case (Inl e)
    with Suc.prems show ?thesis by simp
  next
    case (Inr r)
    obtain stop s1 where r: "r = (stop, s1)" by (cases r)
    show ?thesis
    proof (cases stop)
      case True
      with Suc.prems Inr r show ?thesis by simp
    next
      case False
      with Suc.prems Inr r have "ga_loop opt rnd n s1 = Inr s'" by simp
      from Suc.IH[OF this] have "s' = last (s1 # ga_trace opt rnd n s1)" .
      with False Inr r show ?thesis by simp
    qed
  qed
qed

lemma ga_trace_sorted: "sorted (map best_fitness (s # ga_trace opt rnd n s))"
proof (induction n arbitrary: s)
  case 0
  show ?case by simp
next
  case (Suc n)
  show ?case
  proof (cases "generation opt rnd s")
    case (Inl e)
    then show ?thesis by simp
  next
    case (Inr r)
    obtain stop s' where r: "r = (stop, s')" by (cases r)
    from generation_best(1)[of opt rnd s stop s'] Inr r
    have le: "best_fitness s \<le> best_fitness s'" by (simp add: best_step_def)
    from Suc.IH[of s'] have "sorted (map best_fitness (s' # ga_trace opt rnd n s'))" .
    with le have "sorted (map best_fitness (s # s' # ga_trace opt rnd n s'))"
      by (auto simp: )
    with Inr r le show ?thesis by (cases stop) simp_all
  qed
qed

lemma ga_loop_none:
  "ga_loop opt rnd n s = Inr s' \<Longrightarrow> best_individual s' = None
     \<Longrightarrow> best_individual s = None \<and> best_fitness s' = best_fitness s"
proof (induction n arbitrary: s)
  case 0
  then show ?case by simp
next
  case (Suc n)
  show ?case
  proof (cases "generation opt rnd s")
    case (Inl e)
    with Suc.prems show ?thesis by simp
  next
    case (Inr r)
    obtain stop s1 where r: "r = (stop, s1)" by (cases r)
    from Inr r have g: "generation opt rnd s = Inr (stop, s1)" by simp
    have s1: "best_individual s1 = None \<and> best_fitness s' = best_fitness s1"
    proof (cases stop)
      case True
      with Suc.prems Inr r show ?thesis by simp
    next
      case False
      with Suc.prems Inr r have "ga_loop opt rnd n s1 = Inr s'" by simp
      from Suc.IH[OF this Suc.prems(2)] show ?thesis .
    qed
    with generation_best(2,3)[OF g] show ?thesis by simp
  qed
qed

text \<open>
  Claim C3. The fitness that \<open>calculate_comprehensive_fitness\<close> returns is never negative,
  whatever the schedule and however many violations it has; the same holds for the fitness of
  every candidate under every store.
\<close>

theorem fitness_floor:
  "0 \<le> calculate_comprehensive_fitness opt schedule \<and> 0 \<le> individual_fitness opt st candidate"
  by (simp add: individual_fitness_def fitness_nonneg)

theorem fitness_floor_witness:
  "calculate_comprehensive_fitness ex_opt (map ((!) (heap ex_s0)) [0, 1]) = 450
   \<and> calculate_comprehensive_fitness ex_opt (map ((!) (heap ex_s0)) [0, 1, 2, 3]) = 0
   \<and> 0 \<le> calculate_comprehensive_fitness ex_opt (map ((!) (heap ex_s0)) [0, 1, 2, 3])"
proof -
  have a: "calculate_comprehensive_fitness ex_opt (map ((!) (heap ex_s0)) [0, 1]) = 450"
    by code_simp
  have b: "calculate_comprehensive_fitness ex_opt (map ((!) (heap ex_s0)) [0, 1, 2, 3]) = 0"
    by code_simp
  from fitness_floor [of ex_opt "map ((!) (heap ex_s0)) [0, 1, 2, 3]" "[]" "[]"] a b
  show ?thesis by simp
qed

lemma sorted_le_last:
  "sorted (map f xs) \<Longrightarrow> t \<in> set xs \<Longrightarrow> f t \<le> (f (last xs) :: real)"
proof (induction xs)
  case Nil
  then show ?case by simp
next
  case (Cons x xs)
  then show ?case by (cases "xs = []") auto
qed

lemma optimize_dominates_trace:
  assumes "optimize_with_comprehensive_constraints opt rnd rs = Inr (best, fit, rs')"
    and "t \<in> set (fst (initial_ga_state opt rs)
                    # ga_trace opt rnd (generations opt) (fst (initial_ga_state opt rs)))"
  shows "best_fitness t \<le> fit"
proof -
  obtain s0 confs where i: "initial_ga_state opt rs = (s0, confs)"
    by (cases "initial_ga_state opt rs")
  have s0: "best_individual s0 = None" "best_fitness s0 = 0"
    using i by (auto simp: initial_ga_state_def Let_def split: prod.splits)
  from assms(1) i obtain sf where l: "ga_loop opt rnd (generations opt) s0 = Inr sf"
    by (auto simp: optimize_with_comprehensive_constraints_def split: sum.splits)
  from ga_loop_last[OF l] have sf: "sf = last (s0 # ga_trace opt rnd (generations opt) s0)" .
  from sorted_le_last[OF ga_trace_sorted, of t s0 opt rnd "generations opt"] assms(2) i sf
  have le: "best_fitness t \<le> best_fitness sf" by simp
  show ?thesis
  proof (cases "best_individual sf")
    case None
    from ga_loop_none[OF l None] s0 have "best_fitness sf = 0" by simp
    moreover from assms(1) i l None
    have "\<exists>c. fit = individual_fitness opt (heap sf) c"
      by (auto simp: optimize_with_comprehensive_constraints_def Let_def)
    then have "0 \<le> fit" by (auto simp: individual_fitness_def fitness_nonneg)
    ultimately show ?thesis using le by simp
  next
    case (Some b)
    with assms(1) i l have "fit = best_fitness sf"
      by (simp add: optimize_with_comprehensive_constraints_def Let_def)
    with le show ?thesis by simp
  qed
qed

text \<open>
  Claim C6. Along the states of one run, \<open>s\<close> followed by the state after each generation, the
  tracked best fitness never decreases, and whenever the tracked best candidate is replaced, it
  is replaced by a member of the evaluated population whose fitness is strictly higher than the
  best fitness tracked before (\<open>best_step\<close>). The loop returns the last of these states, and the
  fitness that \<open>optimize_with_comprehensive_constraints\<close> returns is at least the best fitness
  tracked after every generation.
\<close>

theorem best_fitness_monotonic:
  "sorted (map best_fitness (s # ga_trace opt rnd n s))
   \<and> successively (best_step opt) (s # ga_trace opt rnd n s)
   \<and> (\<forall>s'. ga_loop opt rnd n s = Inr s' \<longrightarrow> s' = last (s # ga_trace opt rnd n s))
   \<and> (\<forall>best fit rs'.
        optimize_with_comprehensive_constraints opt rnd rs = Inr (best, fit, rs') \<longrightarrow>
        (\<forall>t \<in> set (fst (initial_ga_state opt rs)
                       # ga_trace opt rnd (generations opt) (fst (initial_ga_state opt rs))).
           best_fitness t \<le> fit))"
  using ga_trace_sorted ga_trace_successively ga_loop_last optimize_dominates_trace
  by blast

theorem best_fitness_monotonic_witness:
  "map best_fitness (ex_s0 # ga_trace ex_opt ex_rnd 2 ex_s0) = [0, 450, 450]
   \<and> map best_individual (ex_s0 # ga_trace ex_opt ex_rnd 2 ex_s0) = [None, Some [0, 1], Some [0, 1]]
   \<and> sorted (map best_fitness (ex_s0 # ga_trace ex_opt ex_rnd 2 ex_s0))
   \<and> successively (best_step ex_opt) (ex_s0 # ga_trace ex_opt ex_rnd 2 ex_s0)
   \<and> map_sum id best_fitness (ga_loop ex_opt ex_rnd 2 ex_s0) = Inr 450"
proof -
  have a: "map best_fitness (ex_s0 # ga_trace ex_opt ex_rnd 2 ex_s0) = [0, 450, 450]"
    by code_simp
  have b: "map best_individual (ex_s0 # ga_trace ex_opt ex_rnd 2 ex_s0)
             = [None, Some [0, 1], Some [0, 1]]"
    by code_simp
  have c: "map_sum id best_fitness (ga_loop ex_opt ex_rnd 2 ex_s0) = Inr 450"
    by code_simp
  from best_fitness_monotonic [of ex_s0 ex_opt ex_rnd 2 ex_rs] a b c
  show ?thesis by simp
qed

subsection \<open>The multi-solution driver\<close>

lemma sort_descending_sorted:
  "sorted_wrt (\<lambda>a b. sol_fitness a \<ge> sol_fitness b) (sort_descending xs)"
proof -
  have "sorted (map sol_fitness (sort_key sol_fitness (rev xs)))" by simp
  then have "sorted_wrt (\<lambda>a b. sol_fitness a \<le> sol_fitness b) (sort_key sol_fitness (rev xs))"
    by (simp add: sorted_map)
  then show ?thesis
    unfolding sort_descending_def by (simp add: sorted_wrt_rev)
qed

lemma sort_descending_mset: "mset (sort_descending xs) = mset xs"
  by (simp add: sort_descending_def)

lemma solution_runs_length:
  "solution_runs opt rnd is (acc, rs) = Inr (sols, rs') \<Longrightarrow> length sols = length acc + length is"
proof (induction "is" arbitrary: acc rs)
  case Nil
  then show ?case by simp
next
  case (Cons i rest)
  then show ?case
    by (auto simp: Let_def split: sum.splits prod.splits)
qed

text \<open>
  Claim C7. When \<open>generate_multiple_optimized_solutions\<close> returns, its list holds one solution for
  each requested run, it is a rearrangement of the solutions in the order the runs produced
  them, and it is sorted by fitness in descending order: each solution's fitness is at least
  that of its successor, so no solution has a higher fitness than the first one.
\<close>

theorem solutions_sorted_descending:
  assumes "generate_multiple_optimized_solutions opt rnd num_solutions rs = Inr (sols, rs')"
  shows "sorted_wrt (\<lambda>a b. sol_fitness a \<ge> sol_fitness b) sols
         \<and> (\<forall>i. Suc i < length sols \<longrightarrow> sol_fitness (sols ! i) \<ge> sol_fitness (sols ! Suc i))
         \<and> (\<forall>x \<in> set sols. sol_fitness x \<le> sol_fitness (hd sols))
         \<and> length sols = num_solutions
         \<and> (\<exists>runs. solution_runs opt rnd [0..<num_solutions] ([], rs) = Inr (runs, rs')
                    \<and> mset sols = mset runs)"
proof -
  from assms obtain runs where r: "solution_runs opt rnd [0..<num_solutions] ([], rs) = Inr (runs, rs')"
    and s: "sols = sort_descending runs"
    by (auto simp: generate_multiple_optimized_solutions_def split: sum.splits)
  have srt: "sorted_wrt (\<lambda>a b. sol_fitness a \<ge> sol_fitness b) sols"
    unfolding s by (rule sort_descending_sorted)
  have adj: "sol_fitness (sols ! i) \<ge> sol_fitness (sols ! Suc i)" if "Suc i < length sols" for i
    using srt that by (simp add: sorted_wrt_iff_nth_less)
  have first: "sol_fitness x \<le> sol_fitness (hd sols)" if "x \<in> set sols" for x
  proof (cases sols)
    case Nil
    with that show ?thesis by simp
  next
    case (Cons y ys)
    with srt that show ?thesis by auto
  qed
  have "length sols = length runs"
    using s sort_descending_mset[of runs] by (metis size_mset)
  with solution_runs_length[OF r] have len: "length sols = num_solutions" by simp
  from r s have "\<exists>runs. solution_runs opt rnd [0..<num_solutions] ([], rs) = Inr (runs, rs')
                    \<and> mset sols = mset runs"
    by (auto simp: sort_descending_mset)
  with srt adj first len show ?thesis by blast
qed

lemma cap_run0:
  "optimize_with_comprehensive_constraints
     ((cap_opt 60)\<lparr>mutation_rate := mutation_rate (cap_opt 60) + real 0 * (2 / 100),
                    population_size := population_size (cap_opt 60) + 0 * 5\<rparr>) ex_rnd ex_rs
   = Inr ([0], 2050, cap_rs1)"
  by code_simp

lemma cap_run1:
  "optimize_with_comprehensive_constraints
     ((cap_opt 60)\<lparr>mutation_rate := mutation_rate (cap_opt 60) + real 1 * (2 / 100),
                    population_size := population_size (cap_opt 60) + 1 * 5\<rparr>) ex_rnd
     (cap_rs1\<lparr>rs_conflicts := []\<rparr>)
   = Inr ([2], 2050, cap_rs2)"
  by code_simp

lemma upt_0_2: "[0..<2] = [0, Suc 0]"
  by code_simp

lemma cap_generate:
  "\<exists>sols. generate_multiple_optimized_solutions (cap_opt 60) ex_rnd 2 ex_rs = Inr (sols, cap_rs2)
     \<and> map sol_fitness sols = [2050, 2050] \<and> mset (map sol_schedule sols) = {#[0], [2]#}"
proof -
  have "\<exists>m0 m1. solution_runs (cap_opt 60) ex_rnd [0..<2] ([], ex_rs)
          = Inr ([\<lparr>sol_schedule = [0], sol_fitness = 2050, sol_metrics = m0, sol_conflicts = []\<rparr>,
                  \<lparr>sol_schedule = [2], sol_fitness = 2050, sol_metrics = m1, sol_conflicts = []\<rparr>],
                 cap_rs2)"
    using cap_run0 cap_run1
    by (simp add: upt_0_2 Let_def cap_rs1_def cap_rs2_def)
  then show ?thesis
    by (auto simp: generate_multiple_optimized_solutions_def sort_descending_def)
qed

theorem solutions_sorted_descending_witness:
  "\<exists>sols. generate_multiple_optimized_solutions (cap_opt 60) ex_rnd 2 ex_rs = Inr (sols, cap_rs2)
     \<and> map sol_fitness sols = [2050, 2050]
     \<and> sorted_wrt (\<lambda>a b. sol_fitness a \<ge> sol_fitness b) sols
     \<and> length sols = 2"
proof -
  from cap_generate obtain sols
    where g: "generate_multiple_optimized_solutions (cap_opt 60) ex_rnd 2 ex_rs = Inr (sols, cap_rs2)"
      and f: "map sol_fitness sols = [2050, 2050]"
    by auto
  from solutions_sorted_descending [OF g] g f show ?thesis by auto
qed

subsection \<open>The daily cap\<close>

lemma sorted_partition:
  assumes "sorted (map k ys)" and "\<And>x y. P x \<Longrightarrow> \<not> P y \<Longrightarrow> k x < (k y :: 'b :: linorder)"
  shows "ys = filter P ys @ filter (\<lambda>x. \<not> P x) ys"
  using assms(1)
proof (induction ys)
  case Nil
  show ?case by simp
next
  case (Cons y ys)
  then have ih: "ys = filter P ys @ filter (\<lambda>x. \<not> P x) ys" and le: "\<forall>z \<in> set ys. k y \<le> k z"
    by simp_all
  show ?case
  proof (cases "P y")
    case True
    with ih show ?thesis by simp
  next
    case False
    have "\<not> P z" if "z \<in> set ys" for z
    proof
      assume "P z"
      from assms(2)[OF this False] le that show False by auto
    qed
    then have "filter P ys = []" and "filter (\<lambda>x. \<not> P x) ys = ys"
      by (simp_all add: filter_empty_conv filter_id_conv)
    with False show ?thesis by simp
  qed
qed

lemma sort_fixed_first:
  "sort_key (\<lambda>x. (\<not> is_fixed x, priority x)) schedule
   = filter is_fixed (sort_key (\<lambda>x. (\<not> is_fixed x, priority x)) schedule)
     @ filter (\<lambda>x. \<not> is_fixed x) (sort_key (\<lambda>x. (\<not> is_fixed x, priority x)) schedule)"
  by (rule sorted_partition [where k = "\<lambda>x. (\<not> is_fixed x, priority x)"])
     (simp_all add: less_prod_def)

lemma enforce_loop_append:
  "enforce_loop opt (xs @ ys) acc = enforce_loop opt ys (enforce_loop opt xs acc)"
proof (induction xs arbitrary: acc)
  case Nil
  show ?case by simp
next
  case (Cons x xs)
  obtain a c f where acc: "acc = (a, c, f)" by (cases acc)
  show ?case unfolding acc
    by (simp add: Let_def reschedule_to_different_day_def Cons.IH)
qed

lemma cap_test: "int c < m \<longleftrightarrow> c < nat m"
  by auto

lemma fixed_phase:
  assumes "\<forall>e \<in> set fs. is_fixed e"
  shows "\<exists>new. enforce_loop opt fs (adj, cnt, cf)
            = (adj @ fs, (\<lambda>k. cnt k + length (filter (\<lambda>e. (batch_id e, day e) = k) fs)), cf @ new)
          \<and> (\<forall>c \<in> set new. c_type c = ''max_classes_exceeded'' \<and> c_subject c = None)
          \<and> (\<forall>b d. length (filter (\<lambda>c. c_batch_id c = b \<and> c_day c = d) new)
                 = (cnt (b, d) + length (filter (\<lambda>e. (batch_id e, day e) = (b, d)) fs))
                   - max (cnt (b, d)) (nat (batch_max_classes opt b)))"
  using assms
proof (induction fs arbitrary: adj cnt cf)
  case Nil
  show ?case by simp
next
  case (Cons e fs)
  let ?k = "(batch_id e, day e)"
  let ?m = "batch_max_classes opt (batch_id e)"
  let ?cnt = "cnt(?k := cnt ?k + 1)"
  from Cons.prems have fx: "is_fixed e" and rest: "\<forall>e \<in> set fs. is_fixed e" by simp_all
  show ?case
  proof (cases "int (cnt ?k) < ?m")
    case True
    from Cons.IH[OF rest, of "adj @ [e]" ?cnt cf] obtain new where
      run: "enforce_loop opt fs (adj @ [e], ?cnt, cf)
            = ((adj @ [e]) @ fs, (\<lambda>k. ?cnt k + length (filter (\<lambda>e. (batch_id e, day e) = k) fs)), cf @ new)"
      and ty: "\<forall>c \<in> set new. c_type c = ''max_classes_exceeded'' \<and> c_subject c = None"
      and n: "\<forall>b d. length (filter (\<lambda>c. c_batch_id c = b \<and> c_day c = d) new)
                 = (?cnt (b, d) + length (filter (\<lambda>e. (batch_id e, day e) = (b, d)) fs))
                   - max (?cnt (b, d)) (nat (batch_max_classes opt b))"
      by blast
    have r: "enforce_loop opt (e # fs) (adj, cnt, cf)
            = (adj @ e # fs, (\<lambda>k. cnt k + length (filter (\<lambda>e. (batch_id e, day e) = k) (e # fs))), cf @ new)"
      using True run by (auto simp: Let_def fun_eq_iff)
    have "length (filter (\<lambda>c. c_batch_id c = b \<and> c_day c = d) new)
                 = (cnt (b, d) + length (filter (\<lambda>e. (batch_id e, day e) = (b, d)) (e # fs)))
                   - max (cnt (b, d)) (nat (batch_max_classes opt b))" for b d
      using n[rule_format, of b d] True by (auto simp: cap_test max_def)
    with r ty show ?thesis by blast
  next
    case False
    let ?c = "fixed_conflict (batch_id e) (day e) (cnt ?k + 1) ?m"
    from Cons.IH[OF rest, of "adj @ [e]" ?cnt "cf @ [?c]"] obtain new where
      run: "enforce_loop opt fs (adj @ [e], ?cnt, cf @ [?c])
            = ((adj @ [e]) @ fs, (\<lambda>k. ?cnt k + length (filter (\<lambda>e. (batch_id e, day e) = k) fs)), (cf @ [?c]) @ new)"
      and ty: "\<forall>c \<in> set new. c_type c = ''max_classes_exceeded'' \<and> c_subject c = None"
      and n: "\<forall>b d. length (filter (\<lambda>c. c_batch_id c = b \<and> c_day c = d) new)
                 = (?cnt (b, d) + length (filter (\<lambda>e. (batch_id e, day e) = (b, d)) fs))
                   - max (?cnt (b, d)) (nat (batch_max_classes opt b))"
      by blast
    have r: "enforce_loop opt (e # fs) (adj, cnt, cf)
            = (adj @ e # fs, (\<lambda>k. cnt k + length (filter (\<lambda>e. (batch_id e, day e) = k) (e # fs))), cf @ (?c # new))"
      using False fx run by (auto simp: Let_def fun_eq_iff)
    have ty': "\<forall>c \<in> set (?c # new). c_type c = ''max_classes_exceeded'' \<and> c_subject c = None"
      using ty by (simp add: fixed_conflict_def)
    have "length (filter (\<lambda>c. c_batch_id c = b \<and> c_day c = d) (?c # new))
                 = (cnt (b, d) + length (filter (\<lambda>e. (batch_id e, day e) = (b, d)) (e # fs)))
                   - max (cnt (b, d)) (nat (batch_max_classes opt b))" for b d
      using n[rule_format, of b d] False by (auto simp: cap_test max_def fixed_conflict_def)
    with r ty' show ?thesis by blast
  qed
qed


lemma free_phase:
  assumes "\<forall>e \<in> set ns. \<not> is_fixed e"
  shows "\<exists>kept dropped. enforce_loop opt ns (adj, cnt, cf)
            = (adj @ kept, (\<lambda>k. cnt k + length (filter (\<lambda>e. (batch_id e, day e) = k) kept)),
               cf @ map dropped_conflict dropped)
          \<and> mset kept + mset dropped = mset ns
          \<and> (\<forall>b d. filter (\<lambda>e. (batch_id e, day e) = (b, d)) kept = []
                   \<or> int (cnt (b, d) + length (filter (\<lambda>e. (batch_id e, day e) = (b, d)) kept))
                       \<le> batch_max_classes opt b)
          \<and> (\<forall>x \<in> set dropped.
                batch_max_classes opt (batch_id x)
                  \<le> int (cnt (batch_id x, day x)
                          + length (filter (\<lambda>e. (batch_id e, day e) = (batch_id x, day x)) kept)))"
  using assms
proof (induction ns arbitrary: adj cnt cf)
  case Nil
  show ?case by simp
next
  case (Cons e ns)
  let ?k = "(batch_id e, day e)"
  let ?m = "batch_max_classes opt (batch_id e)"
  let ?cnt = "cnt(?k := cnt ?k + 1)"
  from Cons.prems have nf: "\<not> is_fixed e" and rest: "\<forall>e \<in> set ns. \<not> is_fixed e" by simp_all
  show ?case
  proof (cases "int (cnt ?k) < ?m")
    case True
    from Cons.IH[OF rest, of "adj @ [e]" ?cnt cf] obtain kept dropped where
      run: "enforce_loop opt ns (adj @ [e], ?cnt, cf)
            = ((adj @ [e]) @ kept,
               (\<lambda>k. ?cnt k + length (filter (\<lambda>e. (batch_id e, day e) = k) kept)),
               cf @ map dropped_conflict dropped)"
      and ms: "mset kept + mset dropped = mset ns"
      and cap: "\<forall>b d. filter (\<lambda>e. (batch_id e, day e) = (b, d)) kept = []
                   \<or> int (?cnt (b, d) + length (filter (\<lambda>e. (batch_id e, day e) = (b, d)) kept))
                       \<le> batch_max_classes opt b"
      and full: "\<forall>x \<in> set dropped.
                batch_max_classes opt (batch_id x)
                  \<le> int (?cnt (batch_id x, day x)
                          + length (filter (\<lambda>e. (batch_id e, day e) = (batch_id x, day x)) kept))"
      by blast
    have r: "enforce_loop opt (e # ns) (adj, cnt, cf)
            = (adj @ (e # kept),
               (\<lambda>k. cnt k + length (filter (\<lambda>e. (batch_id e, day e) = k) (e # kept))),
               cf @ map dropped_conflict dropped)"
      using True run by (auto simp: Let_def fun_eq_iff)
    have m: "mset (e # kept) + mset dropped = mset (e # ns)" using ms by simp
    have c: "filter (\<lambda>e. (batch_id e, day e) = (b, d)) (e # kept) = []
           \<or> int (cnt (b, d) + length (filter (\<lambda>e. (batch_id e, day e) = (b, d)) (e # kept)))
               \<le> batch_max_classes opt b" for b d
      using cap[rule_format, of b d] True by (cases "(batch_id e, day e) = (b, d)") auto
    have f: "batch_max_classes opt (batch_id x)
                  \<le> int (cnt (batch_id x, day x)
                          + length (filter (\<lambda>e. (batch_id e, day e) = (batch_id x, day x)) (e # kept)))"
      if "x \<in> set dropped" for x
      using full[rule_format, OF that] by (cases "(batch_id e, day e) = (batch_id x, day x)") auto
    from r m c f show ?thesis by blast
  next
    case False
    from Cons.IH[OF rest, of adj cnt "cf @ [dropped_conflict e]"] obtain kept dropped where
      run: "enforce_loop opt ns (adj, cnt, cf @ [dropped_conflict e])
            = (adj @ kept,
               (\<lambda>k. cnt k + length (filter (\<lambda>e. (batch_id e, day e) = k) kept)),
               (cf @ [dropped_conflict e]) @ map dropped_conflict dropped)"
      and ms: "mset kept + mset dropped = mset ns"
      and cap: "\<forall>b d. filter (\<lambda>e. (batch_id e, day e) = (b, d)) kept = []
                   \<or> int (cnt (b, d) + length (filter (\<lambda>e. (batch_id e, day e) = (b, d)) kept))
                       \<le> batch_max_classes opt b"
      and full: "\<forall>x \<in> set dropped.
                batch_max_classes opt (batch_id x)
                  \<le> int (cnt (batch_id x, day x)
                          + length (filter (\<lambda>e. (batch_id e, day e) = (batch_id x, day x)) kept))"
      by blast
    have r: "enforce_loop opt (e # ns) (adj, cnt, cf)
            = (adj @ kept,
               (\<lambda>k. cnt k + length (filter (\<lambda>e. (batch_id e, day e) = k) kept)),
               cf @ map dropped_conflict (e # dropped))"
      using False nf run by (simp add: Let_def reschedule_to_different_day_def)
    have m: "mset kept + mset (e # dropped) = mset (e # ns)" using ms by simp
    have "batch_max_classes opt (batch_id e)
            \<le> int (cnt (batch_id e, day e)
                    + length (filter (\<lambda>x. (batch_id x, day x) = (batch_id e, day e)) kept))"
      using False by simp
    with full have f: "\<forall>x \<in> set (e # dropped).
                batch_max_classes opt (batch_id x)
                  \<le> int (cnt (batch_id x, day x)
                          + length (filter (\<lambda>e. (batch_id e, day e) = (batch_id x, day x)) kept))"
      by simp
    from r m cap f show ?thesis by blast
  qed
qed

lemma enforce_structure:
  assumes "enforce_max_classes_per_day opt schedule confs = (adjusted, confs')"
  shows "\<exists>fs kept dropped new.
           adjusted = fs @ kept \<and> confs' = confs @ new @ map dropped_conflict dropped
           \<and> (\<forall>e \<in> set fs. is_fixed e) \<and> (\<forall>e \<in> set kept. \<not> is_fixed e)
           \<and> (\<forall>e \<in> set dropped. \<not> is_fixed e)
           \<and> mset fs = filter_mset is_fixed (mset schedule)
           \<and> mset kept + mset dropped = filter_mset (\<lambda>e. \<not> is_fixed e) (mset schedule)
           \<and> (\<forall>c \<in> set new. c_type c = ''max_classes_exceeded'' \<and> c_subject c = None)
           \<and> (\<forall>b d. length (filter (\<lambda>c. c_batch_id c = b \<and> c_day c = d) new)
                  = length (filter (\<lambda>e. (batch_id e, day e) = (b, d)) fs)
                    - nat (batch_max_classes opt b))
           \<and> (\<forall>b d. filter (\<lambda>e. (batch_id e, day e) = (b, d)) kept = []
                   \<or> int (length (filter (\<lambda>e. (batch_id e, day e) = (b, d)) fs)
                          + length (filter (\<lambda>e. (batch_id e, day e) = (b, d)) kept))
                       \<le> batch_max_classes opt b)
           \<and> (\<forall>x \<in> set dropped.
                 batch_max_classes opt (batch_id x)
                   \<le> int (length (filter (\<lambda>e. (batch_id e, day e) = (batch_id x, day x)) fs)
                           + length (filter (\<lambda>e. (batch_id e, day e) = (batch_id x, day x)) kept)))"
proof -
  let ?s = "sort_key (\<lambda>x. (\<not> is_fixed x, priority x)) schedule"
  let ?fs = "filter is_fixed ?s"
  let ?ns = "filter (\<lambda>x. \<not> is_fixed x) ?s"
  have split: "?s = ?fs @ ?ns" by (rule sort_fixed_first)
  have f1: "\<forall>e \<in> set ?fs. is_fixed e" by simp
  have f2: "\<forall>e \<in> set ?ns. \<not> is_fixed e" by simp
  from fixed_phase[OF f1, of opt "[]" "\<lambda>_. 0" confs] obtain new where
    p1: "enforce_loop opt ?fs ([], (\<lambda>_. 0), confs)
          = (?fs, (\<lambda>k. length (filter (\<lambda>e. (batch_id e, day e) = k) ?fs)), confs @ new)"
    and ty: "\<forall>c \<in> set new. c_type c = ''max_classes_exceeded'' \<and> c_subject c = None"
    and n: "\<forall>b d. length (filter (\<lambda>c. c_batch_id c = b \<and> c_day c = d) new)
                  = length (filter (\<lambda>e. (batch_id e, day e) = (b, d)) ?fs)
                    - nat (batch_max_classes opt b)"
    by auto
  from free_phase[OF f2, of opt ?fs "\<lambda>k. length (filter (\<lambda>e. (batch_id e, day e) = k) ?fs)" "confs @ new"]
  obtain kept dropped where
    p2: "enforce_loop opt ?ns (?fs, (\<lambda>k. length (filter (\<lambda>e. (batch_id e, day e) = k) ?fs)), confs @ new)
          = (?fs @ kept,
             (\<lambda>k. length (filter (\<lambda>e. (batch_id e, day e) = k) ?fs)
                   + length (filter (\<lambda>e. (batch_id e, day e) = k) kept)),
             (confs @ new) @ map dropped_conflict dropped)"
    and ms: "mset kept + mset dropped = mset ?ns"
    and cap: "\<forall>b d. filter (\<lambda>e. (batch_id e, day e) = (b, d)) kept = []
                   \<or> int (length (filter (\<lambda>e. (batch_id e, day e) = (b, d)) ?fs)
                          + length (filter (\<lambda>e. (batch_id e, day e) = (b, d)) kept))
                       \<le> batch_max_classes opt b"
    and full: "\<forall>x \<in> set dropped.
                 batch_max_classes opt (batch_id x)
                   \<le> int (length (filter (\<lambda>e. (batch_id e, day e) = (batch_id x, day x)) ?fs)
                           + length (filter (\<lambda>e. (batch_id e, day e) = (batch_id x, day x)) kept))"
    by blast
  have "enforce_loop opt ?s ([], (\<lambda>_. 0), confs) = enforce_loop opt (?fs @ ?ns) ([], (\<lambda>_. 0), confs)"
    using split by simp
  also have "\<dots> = (?fs @ kept,
             (\<lambda>k. length (filter (\<lambda>e. (batch_id e, day e) = k) ?fs)
                   + length (filter (\<lambda>e. (batch_id e, day e) = k) kept)),
             (confs @ new) @ map dropped_conflict dropped)"
    by (simp only: enforce_loop_append p1 p2)
  finally have run: "enforce_loop opt ?s ([], (\<lambda>_. 0), confs) = (?fs @ kept,
             (\<lambda>k. length (filter (\<lambda>e. (batch_id e, day e) = k) ?fs)
                   + length (filter (\<lambda>e. (batch_id e, day e) = k) kept)),
             (confs @ new) @ map dropped_conflict dropped)" .
  from assms run have a: "adjusted = ?fs @ kept" and c: "confs' = confs @ new @ map dropped_conflict dropped"
    by (simp_all add: enforce_max_classes_per_day_def Let_def)
  have kd: "set kept \<subseteq> set ?ns" "set dropped \<subseteq> set ?ns"
    using ms by (metis mset_subset_eq_add_left set_mset_mono set_mset_mset,
                 metis mset_subset_eq_add_right set_mset_mono set_mset_mset)
  then have k: "\<forall>e \<in> set kept. \<not> is_fixed e" and d: "\<forall>e \<in> set dropped. \<not> is_fixed e" by auto
  have m1: "mset ?fs = filter_mset is_fixed (mset schedule)" by simp
  have m2: "mset kept + mset dropped = filter_mset (\<lambda>e. \<not> is_fixed e) (mset schedule)"
    using ms by simp
  from a c f1 k d m1 m2 ty n cap full show ?thesis by blast
qed


lemma enforce_cap_core:
  assumes "enforce_max_classes_per_day opt schedule confs = (adjusted, confs')"
  shows "(\<forall>b d. \<forall>e \<in> set (drop (nat (batch_max_classes opt b))
                           (filter (\<lambda>e. batch_id e = b \<and> day e = d) adjusted)). is_fixed e)
       \<and> (\<forall>b d. int (length (filter (\<lambda>e. batch_id e = b \<and> day e = d) adjusted))
                   \<le> batch_max_classes opt b
                 \<or> (\<forall>e \<in> set (filter (\<lambda>e. batch_id e = b \<and> day e = d) adjusted). is_fixed e))
       \<and> filter_mset is_fixed (mset adjusted) = filter_mset is_fixed (mset schedule)
       \<and> mset adjusted \<subseteq># mset schedule
       \<and> (\<forall>e \<in># mset schedule - mset adjusted. \<not> is_fixed e)
       \<and> (\<exists>new. confs' = confs @ new
             \<and> (\<forall>c \<in> set new. c_type c = ''max_classes_exceeded'')
             \<and> filter_mset (\<lambda>c. c_subject c \<noteq> None) (mset new)
                 = image_mset dropped_conflict (mset schedule - mset adjusted)
             \<and> (\<forall>b d. length (filter (\<lambda>c. c_subject c = None \<and> c_batch_id c = b \<and> c_day c = d) new)
                    = length (filter (\<lambda>e. is_fixed e \<and> batch_id e = b \<and> day e = d) schedule)
                      - nat (batch_max_classes opt b)))"
proof -
  from enforce_structure[OF assms] obtain fs kept dropped new where
    a: "adjusted = fs @ kept" and c: "confs' = confs @ new @ map dropped_conflict dropped"
    and f: "\<forall>e \<in> set fs. is_fixed e" and k: "\<forall>e \<in> set kept. \<not> is_fixed e"
    and d: "\<forall>e \<in> set dropped. \<not> is_fixed e"
    and m1: "mset fs = filter_mset is_fixed (mset schedule)"
    and m2: "mset kept + mset dropped = filter_mset (\<lambda>e. \<not> is_fixed e) (mset schedule)"
    and ty: "\<forall>c \<in> set new. c_type c = ''max_classes_exceeded'' \<and> c_subject c = None"
    and n: "\<forall>b d. length (filter (\<lambda>c. c_batch_id c = b \<and> c_day c = d) new)
                  = length (filter (\<lambda>e. (batch_id e, day e) = (b, d)) fs)
                    - nat (batch_max_classes opt b)"
    and cap: "\<forall>b d. filter (\<lambda>e. (batch_id e, day e) = (b, d)) kept = []
                   \<or> int (length (filter (\<lambda>e. (batch_id e, day e) = (b, d)) fs)
                          + length (filter (\<lambda>e. (batch_id e, day e) = (b, d)) kept))
                       \<le> batch_max_classes opt b"
    by blast
  have strong: "int (length (filter (\<lambda>e. batch_id e = b \<and> day e = d) adjusted))
                   \<le> batch_max_classes opt b
                 \<or> (\<forall>e \<in> set (filter (\<lambda>e. batch_id e = b \<and> day e = d) adjusted). is_fixed e)" for b d
  proof -
    from cap[rule_format, of b d] show ?thesis
    proof
      assume e: "filter (\<lambda>e. (batch_id e, day e) = (b, d)) kept = []"
      then have "filter (\<lambda>e. batch_id e = b \<and> day e = d) adjusted
                   = filter (\<lambda>e. batch_id e = b \<and> day e = d) fs"
        by (simp add: a)
      with f show ?thesis by auto
    next
      assume "int (length (filter (\<lambda>e. (batch_id e, day e) = (b, d)) fs)
                          + length (filter (\<lambda>e. (batch_id e, day e) = (b, d)) kept))
                       \<le> batch_max_classes opt b"
      then show ?thesis by (simp add: a)
    qed
  qed
  have beyond: "is_fixed e"
    if "e \<in> set (drop (nat (batch_max_classes opt b))
                    (filter (\<lambda>e. batch_id e = b \<and> day e = d) adjusted))" for b d e
  proof -
    from strong[of b d] show ?thesis
    proof
      assume "int (length (filter (\<lambda>e. batch_id e = b \<and> day e = d) adjusted))
                \<le> batch_max_classes opt b"
      then have "drop (nat (batch_max_classes opt b))
                    (filter (\<lambda>e. batch_id e = b \<and> day e = d) adjusted) = []"
        by simp
      with that show ?thesis by simp
    next
      assume "\<forall>e \<in> set (filter (\<lambda>e. batch_id e = b \<and> day e = d) adjusted). is_fixed e"
      with that in_set_dropD show ?thesis by fast
    qed
  qed
  have whole: "mset schedule = mset fs + (mset kept + mset dropped)"
    unfolding m1 m2 by (rule multiset_partition)
  have fx: "filter_mset is_fixed (mset adjusted) = filter_mset is_fixed (mset schedule)"
  proof -
    have "filter_mset is_fixed (mset adjusted) = mset (filter is_fixed fs) + mset (filter is_fixed kept)"
      by (simp add: a)
    also have "filter is_fixed fs = fs" using f by (simp add: filter_id_conv)
    also have "filter is_fixed kept = []" using k by (simp add: filter_empty_conv)
    finally show ?thesis using m1 by simp
  qed
  have sub: "mset adjusted \<subseteq># mset schedule" unfolding whole a by simp
  have diff: "mset schedule - mset adjusted = mset dropped" unfolding whole a by simp
  have out: "\<forall>e \<in># mset schedule - mset adjusted. \<not> is_fixed e" using d by (simp add: diff)
  let ?new = "new @ map dropped_conflict dropped"
  have c1: "confs' = confs @ ?new" using c by simp
  have c2: "\<forall>c \<in> set ?new. c_type c = ''max_classes_exceeded''"
    using ty by (auto simp: dropped_conflict_def)
  have "filter (\<lambda>c. c_subject c \<noteq> None) new = []" using ty by (simp add: filter_empty_conv)
  moreover have "filter (\<lambda>c. c_subject c \<noteq> None) (map dropped_conflict dropped)
                   = map dropped_conflict dropped"
    by (simp add: filter_id_conv dropped_conflict_def)
  ultimately have c3: "filter_mset (\<lambda>c. c_subject c \<noteq> None) (mset ?new)
                 = image_mset dropped_conflict (mset schedule - mset adjusted)"
    by (simp add: diff flip: mset_filter mset_map)
  have c4: "length (filter (\<lambda>c. c_subject c = None \<and> c_batch_id c = b \<and> c_day c = d) ?new)
                    = length (filter (\<lambda>e. is_fixed e \<and> batch_id e = b \<and> day e = d) schedule)
                      - nat (batch_max_classes opt b)" for b d
  proof -
    have "filter (\<lambda>c. c_subject c = None \<and> c_batch_id c = b \<and> c_day c = d)
            (map dropped_conflict dropped) = []"
      by (simp add: filter_empty_conv dropped_conflict_def)
    moreover have "filter (\<lambda>c. c_subject c = None \<and> c_batch_id c = b \<and> c_day c = d) new
                     = filter (\<lambda>c. c_batch_id c = b \<and> c_day c = d) new"
      using ty by (auto intro: filter_cong)
    ultimately have l: "length (filter (\<lambda>c. c_subject c = None \<and> c_batch_id c = b \<and> c_day c = d) ?new)
                 = length (filter (\<lambda>e. (batch_id e, day e) = (b, d)) fs)
                    - nat (batch_max_classes opt b)"
      using n[rule_format, of b d] by simp
    have "size (filter_mset (\<lambda>e. batch_id e = b \<and> day e = d) (mset fs))
            = size (filter_mset (\<lambda>e. batch_id e = b \<and> day e = d) (filter_mset is_fixed (mset schedule)))"
      by (simp only: m1)
    then have "length (filter (\<lambda>e. (batch_id e, day e) = (b, d)) fs)
            = length (filter (\<lambda>e. is_fixed e \<and> batch_id e = b \<and> day e = d) schedule)"
      by (simp add: conj_commute flip: mset_filter)
    with l show ?thesis by simp
  qed
  from c1 c2 c3 c4 have ex: "\<exists>new. confs' = confs @ new
             \<and> (\<forall>c \<in> set new. c_type c = ''max_classes_exceeded'')
             \<and> filter_mset (\<lambda>c. c_subject c \<noteq> None) (mset new)
                 = image_mset dropped_conflict (mset schedule - mset adjusted)
             \<and> (\<forall>b d. length (filter (\<lambda>c. c_subject c = None \<and> c_batch_id c = b \<and> c_day c = d) new)
                    = length (filter (\<lambda>e. is_fixed e \<and> batch_id e = b \<and> day e = d) schedule)
                      - nat (batch_max_classes opt b))"
    by blast
  from beyond strong fx sub out ex show ?thesis by blast
qed


lemma eight_free_run:
  "enforce_max_classes_per_day ex_opt eight_free []
   = (map (\<lambda>i. free_entry i ''Monday'') [1, 2, 3, 4, 5, 6],
      [dropped_conflict (free_entry 7 ''Monday''), dropped_conflict (free_entry 8 ''Monday'')])"
  by code_simp

lemma mixed_run:
  "enforce_max_classes_per_day cap1_opt mixed_schedule []
   = ([fixed_entry 3 1, fixed_entry 2 2, free_entry 4 ''Tuesday''],
      [fixed_conflict 1 ''Monday'' 2 1, dropped_conflict (free_entry 1 ''Monday'')])"
  by code_simp

lemma batch_max_classes_row:
  assumes "i < length (batches opt)"
    and "\<forall>j < i. b_id (batches opt ! j) \<noteq> b_id (batches opt ! i)"
  shows "batch_max_classes opt (b_id (batches opt ! i)) = max_classes_per_day (batches opt ! i)"
proof -
  have "find (\<lambda>b. b_id b = b_id (batches opt ! i)) (batches opt) = Some (batches opt ! i)"
    unfolding find_Some_iff using assms by blast
  then show ?thesis by (simp add: batch_max_classes_def)
qed

lemma batch_max_classes_default:
  assumes "b \<notin> b_id ` set (batches opt)"
  shows "batch_max_classes opt b = 8"
proof -
  from assms have "find (\<lambda>x. b_id x = b) (batches opt) = None"
    unfolding find_None_iff by auto
  then show ?thesis by (simp add: batch_max_classes_def MAX_CLASSES_PER_DAY_def)
qed

lemma enforce_dropped_full:
  assumes "enforce_max_classes_per_day opt schedule confs = (adjusted, confs')"
    and "e \<in># mset schedule - mset adjusted"
  shows "batch_max_classes opt (batch_id e)
           \<le> int (length (filter (\<lambda>x. batch_id x = batch_id e \<and> day x = day e) adjusted))"
proof -
  from enforce_structure[OF assms(1)] obtain fs kept dropped where
    a: "adjusted = fs @ kept"
    and m1: "mset fs = filter_mset is_fixed (mset schedule)"
    and m2: "mset kept + mset dropped = filter_mset (\<lambda>e. \<not> is_fixed e) (mset schedule)"
    and full: "\<forall>x \<in> set dropped.
                 batch_max_classes opt (batch_id x)
                   \<le> int (length (filter (\<lambda>e. (batch_id e, day e) = (batch_id x, day x)) fs)
                           + length (filter (\<lambda>e. (batch_id e, day e) = (batch_id x, day x)) kept))"
    by blast
  have whole: "mset schedule = mset fs + (mset kept + mset dropped)"
    unfolding m1 m2 by (rule multiset_partition)
  have "mset schedule - mset adjusted = mset dropped" unfolding whole a by simp
  with assms(2) have "e \<in> set dropped" by simp
  from full[rule_format, OF this] show ?thesis by (simp add: a)
qed

text \<open>
  Claim C8. In the schedule that \<open>enforce_max_classes_per_day\<close> returns, the entries of a batch
  on a day beyond that batch's cap are all fixed; more strongly, either their number is within
  the cap or all of them are fixed. The cap of a batch is the \<open>max_classes_per_day\<close> of its row,
  the first row of \<open>self.batches\<close> with its id, and 8 for a batch without a row. Every fixed
  entry of the input is kept, nothing is added, and every entry that is left out is non-fixed
  and is left out only when its batch already has at least its cap of entries on that day. The
  conflicts appended are all of type \<open>max_classes_exceeded\<close>: one for each entry left out, built
  from that entry, and, for each batch and day, one for each fixed entry beyond the cap. An entry
  is never moved to another day, since \<open>reschedule_to_different_day\<close> returns \<open>None\<close>.
\<close>

theorem enforce_max_classes_cap:
  assumes "enforce_max_classes_per_day opt schedule confs = (adjusted, confs')"
  shows "(\<forall>b d. \<forall>e \<in> set (drop (nat (batch_max_classes opt b))
                           (filter (\<lambda>e. batch_id e = b \<and> day e = d) adjusted)). is_fixed e)
       \<and> (\<forall>b d. int (length (filter (\<lambda>e. batch_id e = b \<and> day e = d) adjusted))
                   \<le> batch_max_classes opt b
                 \<or> (\<forall>e \<in> set (filter (\<lambda>e. batch_id e = b \<and> day e = d) adjusted). is_fixed e))
       \<and> filter_mset is_fixed (mset adjusted) = filter_mset is_fixed (mset schedule)
       \<and> mset adjusted \<subseteq># mset schedule
       \<and> (\<forall>e \<in># mset schedule - mset adjusted. \<not> is_fixed e)
       \<and> (\<exists>new. confs' = confs @ new
             \<and> (\<forall>c \<in> set new. c_type c = ''max_classes_exceeded'')
             \<and> filter_mset (\<lambda>c. c_subject c \<noteq> None) (mset new)
                 = image_mset dropped_conflict (mset schedule - mset adjusted)
             \<and> (\<forall>b d. length (filter (\<lambda>c. c_subject c = None \<and> c_batch_id c = b \<and> c_day c = d) new)
                    = length (filter (\<lambda>e. is_fixed e \<and> batch_id e = b \<and> day e = d) schedule)
                      - nat (batch_max_classes opt b)))
       \<and> (\<forall>i < length (batches opt).
             (\<forall>j < i. b_id (batches opt ! j) \<noteq> b_id (batches opt ! i)) \<longrightarrow>
             batch_max_classes opt (b_id (batches opt ! i)) = max_classes_per_day (batches opt ! i)
             \<and> (\<forall>d. \<forall>e \<in> set (drop (nat (max_classes_per_day (batches opt ! i)))
                                  (filter (\<lambda>e. batch_id e = b_id (batches opt ! i) \<and> day e = d)
                                     adjusted)). is_fixed e)
             \<and> (\<forall>d. int (length (filter (\<lambda>e. batch_id e = b_id (batches opt ! i) \<and> day e = d)
                                    adjusted))
                       \<le> max_classes_per_day (batches opt ! i)
                     \<or> (\<forall>e \<in> set (filter (\<lambda>e. batch_id e = b_id (batches opt ! i) \<and> day e = d)
                                      adjusted). is_fixed e)))
       \<and> (\<forall>b. b \<notin> b_id ` set (batches opt) \<longrightarrow> batch_max_classes opt b = 8)
       \<and> (\<forall>e \<in># mset schedule - mset adjusted.
             batch_max_classes opt (batch_id e)
               \<le> int (length (filter (\<lambda>x. batch_id x = batch_id e \<and> day x = day e) adjusted)))"
proof -
  note core = enforce_cap_core[OF assms]
  from core have c1: "\<forall>b d. \<forall>e \<in> set (drop (nat (batch_max_classes opt b))
                           (filter (\<lambda>e. batch_id e = b \<and> day e = d) adjusted)). is_fixed e"
    by (elim conjE)
  from core have c2: "\<forall>b d. int (length (filter (\<lambda>e. batch_id e = b \<and> day e = d) adjusted))
                   \<le> batch_max_classes opt b
                 \<or> (\<forall>e \<in> set (filter (\<lambda>e. batch_id e = b \<and> day e = d) adjusted). is_fixed e)"
    by (elim conjE)
  have rows: "batch_max_classes opt (b_id (batches opt ! i)) = max_classes_per_day (batches opt ! i)
             \<and> (\<forall>d. \<forall>e \<in> set (drop (nat (max_classes_per_day (batches opt ! i)))
                                  (filter (\<lambda>e. batch_id e = b_id (batches opt ! i) \<and> day e = d)
                                     adjusted)). is_fixed e)
             \<and> (\<forall>d. int (length (filter (\<lambda>e. batch_id e = b_id (batches opt ! i) \<and> day e = d)
                                    adjusted))
                       \<le> max_classes_per_day (batches opt ! i)
                     \<or> (\<forall>e \<in> set (filter (\<lambda>e. batch_id e = b_id (batches opt ! i) \<and> day e = d)
                                      adjusted). is_fixed e))"
    if "i < length (batches opt)" "\<forall>j < i. b_id (batches opt ! j) \<noteq> b_id (batches opt ! i)" for i
  proof -
    from batch_max_classes_row[OF that]
    have r: "batch_max_classes opt (b_id (batches opt ! i)) = max_classes_per_day (batches opt ! i)" .
    from c1[rule_format, of _ "b_id (batches opt ! i)"] c2[rule_format, of "b_id (batches opt ! i)"] r
    show ?thesis by (simp only: r) blast
  qed
  have dflt: "\<forall>b. b \<notin> b_id ` set (batches opt) \<longrightarrow> batch_max_classes opt b = 8"
    using batch_max_classes_default by blast
  have full: "\<forall>e \<in># mset schedule - mset adjusted.
             batch_max_classes opt (batch_id e)
               \<le> int (length (filter (\<lambda>x. batch_id x = batch_id e \<and> day x = day e) adjusted))"
    using enforce_dropped_full[OF assms] by blast
  from rows have rows': "\<forall>i < length (batches opt).
             (\<forall>j < i. b_id (batches opt ! j) \<noteq> b_id (batches opt ! i)) \<longrightarrow>
             batch_max_classes opt (b_id (batches opt ! i)) = max_classes_per_day (batches opt ! i)
             \<and> (\<forall>d. \<forall>e \<in> set (drop (nat (max_classes_per_day (batches opt ! i)))
                                  (filter (\<lambda>e. batch_id e = b_id (batches opt ! i) \<and> day e = d)
                                     adjusted)). is_fixed e)
             \<and> (\<forall>d. int (length (filter (\<lambda>e. batch_id e = b_id (batches opt ! i) \<and> day e = d)
                                    adjusted))
                       \<le> max_classes_per_day (batches opt ! i)
                     \<or> (\<forall>e \<in> set (filter (\<lambda>e. batch_id e = b_id (batches opt ! i) \<and> day e = d)
                                      adjusted). is_fixed e))"
    by blast
  from core have c3: "filter_mset is_fixed (mset adjusted) = filter_mset is_fixed (mset schedule)"
    by (elim conjE)
  from core have c4: "mset adjusted \<subseteq># mset schedule"
    by (elim conjE)
  from core have c5: "\<forall>e \<in># mset schedule - mset adjusted. \<not> is_fixed e"
    by (elim conjE)
  from core have c6: "\<exists>new. confs' = confs @ new
             \<and> (\<forall>c \<in> set new. c_type c = ''max_classes_exceeded'')
             \<and> filter_mset (\<lambda>c. c_subject c \<noteq> None) (mset new)
                 = image_mset dropped_conflict (mset schedule - mset adjusted)
             \<and> (\<forall>b d. length (filter (\<lambda>c. c_subject c = None \<and> c_batch_id c = b \<and> c_day c = d) new)
                    = length (filter (\<lambda>e. is_fixed e \<and> batch_id e = b \<and> day e = d) schedule)
                      - nat (batch_max_classes opt b))"
    by (elim conjE)
  from c1 c2 c3 c4 c5 c6 rows' dflt full show ?thesis by (intro conjI)
qed

lemma two_batch_run:
  "enforce_max_classes_per_day two_batch_opt two_batch_schedule []
   = (two_batch_adjusted,
      [dropped_conflict (free_entry 1 ''Monday''), dropped_conflict (free_entry 2 ''Monday''),
       dropped_conflict ((free_entry 5 ''Monday'')\<lparr>batch_id := 2\<rparr>)])"
  by code_simp

lemma two_batch_rows:
  "map (\<lambda>b. (b_id b, max_classes_per_day b)) (batches two_batch_opt) = [(1, 1), (2, 2)]"
  by code_simp

lemma two_batch_counts:
  "length (filter (\<lambda>e. batch_id e = 1 \<and> day e = ''Monday'') two_batch_adjusted) = 1"
  "length (filter (\<lambda>e. batch_id e = 2 \<and> day e = ''Monday'') two_batch_adjusted) = 2"
  "length (filter (\<lambda>e. batch_id e = 3 \<and> day e = ''Monday'') two_batch_adjusted) = 1"
  by code_simp+

theorem enforce_max_classes_cap_witness:
  "enforce_max_classes_per_day ex_opt eight_free []
     = (map (\<lambda>i. free_entry i ''Monday'') [1, 2, 3, 4, 5, 6],
        [dropped_conflict (free_entry 7 ''Monday''), dropped_conflict (free_entry 8 ''Monday'')])
   \<and> batch_max_classes ex_opt 1 = 6
   \<and> mset (map (\<lambda>i. free_entry i ''Monday'') [1, 2, 3, 4, 5, 6]) \<subseteq># mset eight_free
   \<and> enforce_max_classes_per_day cap1_opt mixed_schedule []
     = ([fixed_entry 3 1, fixed_entry 2 2, free_entry 4 ''Tuesday''],
        [fixed_conflict 1 ''Monday'' 2 1, dropped_conflict (free_entry 1 ''Monday'')])
   \<and> batch_max_classes cap1_opt 1 = 1
   \<and> filter_mset is_fixed (mset [fixed_entry 3 1, fixed_entry 2 2, free_entry 4 ''Tuesday''])
     = filter_mset is_fixed (mset mixed_schedule)
   \<and> enforce_max_classes_per_day two_batch_opt two_batch_schedule []
     = (two_batch_adjusted,
        [dropped_conflict (free_entry 1 ''Monday''), dropped_conflict (free_entry 2 ''Monday''),
         dropped_conflict ((free_entry 5 ''Monday'')\<lparr>batch_id := 2\<rparr>)])
   \<and> map (\<lambda>b. (b_id b, max_classes_per_day b)) (batches two_batch_opt) = [(1, 1), (2, 2)]
   \<and> batch_max_classes two_batch_opt 1 = 1
   \<and> batch_max_classes two_batch_opt 2 = 2
   \<and> batch_max_classes two_batch_opt 3 = 8
   \<and> length (filter (\<lambda>e. batch_id e = 1 \<and> day e = ''Monday'') two_batch_adjusted) = 1
   \<and> length (filter (\<lambda>e. batch_id e = 2 \<and> day e = ''Monday'') two_batch_adjusted) = 2
   \<and> length (filter (\<lambda>e. batch_id e = 3 \<and> day e = ''Monday'') two_batch_adjusted) = 1
   \<and> mset two_batch_adjusted \<subseteq># mset two_batch_schedule"
proof -
  have m6: "batch_max_classes ex_opt 1 = 6" by code_simp
  have m1: "batch_max_classes cap1_opt 1 = 1" by code_simp
  note t1 = enforce_max_classes_cap [OF eight_free_run]
  note t2 = enforce_max_classes_cap [OF mixed_run]
  note t3 = enforce_max_classes_cap [OF two_batch_run]
  from t1 have a: "mset (map (\<lambda>i. free_entry i ''Monday'') [1, 2, 3, 4, 5, 6]) \<subseteq># mset eight_free"
    by (elim conjE)
  from t2 have b: "filter_mset is_fixed (mset [fixed_entry 3 1, fixed_entry 2 2, free_entry 4 ''Tuesday''])
     = filter_mset is_fixed (mset mixed_schedule)"
    by (elim conjE)
  from t3 have c: "mset two_batch_adjusted \<subseteq># mset two_batch_schedule"
    by (elim conjE)
  from t3 have rows: "\<forall>i < length (batches two_batch_opt).
             (\<forall>j < i. b_id (batches two_batch_opt ! j) \<noteq> b_id (batches two_batch_opt ! i)) \<longrightarrow>
             batch_max_classes two_batch_opt (b_id (batches two_batch_opt ! i))
               = max_classes_per_day (batches two_batch_opt ! i)
             \<and> (\<forall>d. \<forall>e \<in> set (drop (nat (max_classes_per_day (batches two_batch_opt ! i)))
                                  (filter (\<lambda>e. batch_id e = b_id (batches two_batch_opt ! i) \<and> day e = d)
                                     two_batch_adjusted)). is_fixed e)
             \<and> (\<forall>d. int (length (filter (\<lambda>e. batch_id e = b_id (batches two_batch_opt ! i) \<and> day e = d)
                                    two_batch_adjusted))
                       \<le> max_classes_per_day (batches two_batch_opt ! i)
                     \<or> (\<forall>e \<in> set (filter (\<lambda>e. batch_id e = b_id (batches two_batch_opt ! i) \<and> day e = d)
                                      two_batch_adjusted). is_fixed e))"
    by (elim conjE)
  from t3 have dflt: "\<forall>b. b \<notin> b_id ` set (batches two_batch_opt) \<longrightarrow> batch_max_classes two_batch_opt b = 8"
    by (elim conjE)
  have bs: "batches two_batch_opt
              = [\<lparr>b_id = 1, student_count = 70, max_classes_per_day = 1, b_semester_id = Some 1\<rparr>,
                 \<lparr>b_id = 2, student_count = 40, max_classes_per_day = 2, b_semester_id = Some 1\<rparr>]"
    by (simp add: two_batch_opt_def)
  from rows[rule_format, of 0] have r1: "batch_max_classes two_batch_opt 1 = 1"
    by (simp add: bs)
  from rows[rule_format, of 1] have r2: "batch_max_classes two_batch_opt 2 = 2"
    by (simp add: bs)
  from dflt[rule_format, of 3] have r3: "batch_max_classes two_batch_opt 3 = 8"
    by (simp add: bs)
  from eight_free_run m6 a mixed_run m1 b two_batch_run two_batch_rows r1 r2 r3 two_batch_counts c
  show ?thesis by (intro conjI)
qed

subsection \<open>Fixed entries under mutation and search\<close>

lemma fixed_preserved_refl: "fixed_preserved st st"
  by (simp add: fixed_preserved_def)

lemma fixed_preserved_trans:
  "fixed_preserved a b \<Longrightarrow> fixed_preserved b c \<Longrightarrow> fixed_preserved a c"
  by (auto simp: fixed_preserved_def)

lemma mutate_entry_fixed: "is_fixed e \<Longrightarrow> fst (mutate_entry opt rnd p e) = e"
  by (simp add: mutate_entry_def Let_def split: prod.splits)

lemma mutation_loop_fixed:
  "fixed_preserved st (fst (mutation_loop opt rnd rs (st, p)))"
proof (induction rs arbitrary: st p)
  case Nil
  show ?case by (simp add: fixed_preserved_refl)
next
  case (Cons r rs)
  obtain e' p' where m: "mutate_entry opt rnd p (st ! r) = (e', p')"
    by (cases "mutate_entry opt rnd p (st ! r)")
  have one: "fixed_preserved st (st[r := e'])"
    unfolding fixed_preserved_def
  proof (intro conjI allI impI)
    show "length (st[r := e']) = length st" by simp
    fix q assume q: "q < length st" and f: "is_fixed (st ! q)"
    show "st[r := e'] ! q = st ! q"
    proof (cases "q = r")
      case True
      with f mutate_entry_fixed[of "st ! r" opt rnd p] m have "e' = st ! r" by simp
      with True q show ?thesis by simp
    next
      case False
      then show ?thesis by simp
    qed
  qed
  from Cons.IH[of "st[r := e']" p'] have "fixed_preserved (st[r := e']) (fst (mutation_loop opt rnd rs (st[r := e'], p')))" .
  with one have "fixed_preserved st (fst (mutation_loop opt rnd rs (st[r := e'], p')))"
    by (rule fixed_preserved_trans)
  with m show ?case by simp
qed

lemma comprehensive_mutation_fixed:
  "fixed_preserved st (fst (snd (comprehensive_mutation opt rnd ind (st, p))))"
  "fst (comprehensive_mutation opt rnd ind (st, p)) = ind"
  by (simp_all add: comprehensive_mutation_def mutation_loop_fixed fixed_preserved_refl)

lemma fill_population_fixed:
  "fill_population opt rnd pop fs np s = Inr (np', st', p') \<Longrightarrow> fixed_preserved (fst s) st'"
proof (induction opt rnd pop fs np s rule: fill_population.induct)
  case (1 opt rnd pop fs np s)
  show ?case
  proof (cases "length np < population_size opt")
    case False
    with "1.prems" show ?thesis
      by (simp add: fixed_preserved_refl)
  next
    case True
    from True "1.prems" obtain parent1 p1 where t1: "tournament_selection rnd (snd s) pop fs = Inr (parent1, p1)"
      by (subst (asm) fill_population.simps) (auto split: sum.splits)
    from True "1.prems" t1 obtain parent2 p2 where t2: "tournament_selection rnd p1 pop fs = Inr (parent2, p2)"
      by (subst (asm) fill_population.simps) (auto split: sum.splits)
    from True "1.prems" t1 t2 obtain o1 o2 p3 where
      c: "enhanced_crossover rnd (crossover_rate opt) parent1 parent2 p2 = Inr (o1, o2, p3)"
      by (subst (asm) fill_population.simps) (auto split: sum.splits)
    let ?m1 = "comprehensive_mutation opt rnd o1 (fst s, p3)"
    let ?m2 = "comprehensive_mutation opt rnd o2 (snd ?m1)"
    from True "1.prems" t1 t2 c
    have rec: "fill_population opt rnd pop fs (np @ [fst ?m1, fst ?m2]) (snd ?m2) = Inr (np', st', p')"
      by (subst (asm) fill_population.simps) simp
    have ih: "fixed_preserved (fst (snd ?m2)) st'"
      by (rule "1.IH"[OF True t1 refl t2 refl c refl refl rec])
    have a: "fixed_preserved (fst s) (fst (snd ?m1))"
      by (rule comprehensive_mutation_fixed)
    have b: "fixed_preserved (fst (snd ?m1)) (fst (snd ?m2))"
      using comprehensive_mutation_fixed(1)[of "fst (snd ?m1)" opt rnd o2 "snd (snd ?m1)"] by simp
    from a b ih show ?thesis by (blast intro: fixed_preserved_trans)
  qed
qed

lemma generation_unfold:
  "generation opt rnd s =
     (case track_best
             (if map (individual_fitness opt (heap s)) (population s) = [] then 0
              else Max (set (map (individual_fitness opt (heap s)) (population s))))
             (case np_argmax (map (individual_fitness opt (heap s)) (population s)) of
                Inl _ \<Rightarrow> 0 | Inr i \<Rightarrow> i) s of
        Inl e \<Rightarrow> Inl e
      | Inr s1 \<Rightarrow>
          if (if map (individual_fitness opt (heap s)) (population s) = [] then 0
              else Max (set (map (individual_fitness opt (heap s)) (population s)))) \<ge> 900
          then Inr (True, s1)
          else
            (case fill_population opt rnd (population s)
                    (map (individual_fitness opt (heap s)) (population s))
                    (map ((!) (population s))
                       (drop (length (np_argsort (map (individual_fitness opt (heap s)) (population s)))
                                - max 1 (population_size opt div 10))
                          (np_argsort (map (individual_fitness opt (heap s)) (population s)))))
                    (heap s1, rng_pos s1) of
               Inl e \<Rightarrow> Inl e
             | Inr (new_population, st, p) \<Rightarrow>
                 Inr (False, s1\<lparr>population := take (population_size opt) new_population,
                                heap := st, rng_pos := p\<rparr>)))"
  unfolding generation_def Let_def ..

lemma generation_fixed:
  assumes "generation opt rnd s = Inr (stop, s')"
  shows "fixed_preserved (heap s) (heap s')"
proof -
  let ?fs = "map (individual_fitness opt (heap s)) (population s)"
  let ?f = "if ?fs = [] then 0 else Max (set ?fs)"
  let ?i = "case np_argmax ?fs of Inl _ \<Rightarrow> 0 | Inr i \<Rightarrow> i"
  let ?np0 = "map ((!) (population s))
               (drop (length (np_argsort ?fs) - max 1 (population_size opt div 10)) (np_argsort ?fs))"
  note g = assms[unfolded generation_unfold]
  from g obtain s1 where t: "track_best ?f ?i s = Inr s1"
    by (cases "track_best ?f ?i s") simp_all
  from track_best_mono(6)[OF t] have h1: "heap s1 = heap s" .
  show ?thesis
  proof (cases "?f \<ge> 900")
    case True
    with g t have "s' = s1" by simp
    with h1 show ?thesis by (simp add: fixed_preserved_refl)
  next
    case False
    with g t obtain r where f: "fill_population opt rnd (population s) ?fs ?np0 (heap s1, rng_pos s1) = Inr r"
      by (cases "fill_population opt rnd (population s) ?fs ?np0 (heap s1, rng_pos s1)") simp_all
    obtain np st p where r: "r = (np, st, p)" by (cases r)
    from g t False f r have "heap s' = st" by auto
    with fill_population_fixed[of opt rnd "population s" ?fs ?np0 "(heap s1, rng_pos s1)" np st p] f r h1
    show ?thesis by simp
  qed
qed

lemma ga_trace_fixed:
  "t \<in> set (ga_trace opt rnd n s) \<Longrightarrow> fixed_preserved (heap s) (heap t)"
proof (induction n arbitrary: s)
  case 0
  then show ?case by simp
next
  case (Suc n)
  show ?case
  proof (cases "generation opt rnd s")
    case (Inl e)
    with Suc.prems show ?thesis by simp
  next
    case (Inr r)
    obtain stop s1 where r: "r = (stop, s1)" by (cases r)
    from Inr r have g: "generation opt rnd s = Inr (stop, s1)" by simp
    note one = generation_fixed[OF g]
    show ?thesis
    proof (cases "t = s1")
      case True
      with one show ?thesis by simp
    next
      case False
      with Suc.prems g have "t \<in> set (ga_trace opt rnd n s1)" by (cases stop) auto
      from Suc.IH[OF this] one show ?thesis by (blast intro: fixed_preserved_trans)
    qed
  qed
qed

lemma optimize_fixed:
  assumes "optimize_with_comprehensive_constraints opt rnd rs = Inr (best, fit, rs')"
  shows "fixed_preserved (heap (fst (initial_ga_state opt rs))) (rs_heap rs')"
proof -
  obtain s0 confs where i: "initial_ga_state opt rs = (s0, confs)"
    by (cases "initial_ga_state opt rs")
  from assms i obtain sf where l: "ga_loop opt rnd (generations opt) s0 = Inr sf"
    and h: "rs_heap rs' = heap sf"
    by (auto simp: optimize_with_comprehensive_constraints_def Let_def split: sum.splits option.splits)
  from ga_loop_last[OF l] have "sf = s0 \<or> sf \<in> set (ga_trace opt rnd (generations opt) s0)"
    by (auto split: if_splits)
  then have "fixed_preserved (heap s0) (heap sf)"
    using ga_trace_fixed by (auto simp: fixed_preserved_refl)
  with i h show ?thesis by simp
qed

text \<open>
  Claim C1. \<open>comprehensive_mutation\<close> returns the candidate it was given and a store in which
  every fixed entry has the value it had before, in every field (day, start and end time, venue
  id and type, subject, batch and the rest); it reassigns fields of non-fixed entries only. The
  same holds for the store after every generation of the search with respect to the store the
  generation loop started from, and for the store that \<open>optimize_with_comprehensive_constraints\<close>
  returns with respect to the store that held the constructed initial population. Crossover only
  rearranges references and does not touch the store.
\<close>

theorem fixed_entries_unchanged:
  "fixed_preserved st (fst (snd (comprehensive_mutation opt rnd candidate (st, p))))
   \<and> fst (comprehensive_mutation opt rnd candidate (st, p)) = candidate
   \<and> (\<forall>t \<in> set (ga_trace opt rnd n s). fixed_preserved (heap s) (heap t))
   \<and> (\<forall>best fit rs'.
        optimize_with_comprehensive_constraints opt rnd rs = Inr (best, fit, rs') \<longrightarrow>
        fixed_preserved (heap (fst (initial_ga_state opt rs))) (rs_heap rs'))"
proof (intro conjI ballI allI impI)
  show "fixed_preserved st (fst (snd (comprehensive_mutation opt rnd candidate (st, p))))"
    by (rule comprehensive_mutation_fixed)
  show "fst (comprehensive_mutation opt rnd candidate (st, p)) = candidate"
    by (rule comprehensive_mutation_fixed)
  show "fixed_preserved (heap s) (heap t)" if "t \<in> set (ga_trace opt rnd n s)" for t
    using that by (rule ga_trace_fixed)
  show "fixed_preserved (heap (fst (initial_ga_state opt rs))) (rs_heap rs')"
    if "optimize_with_comprehensive_constraints opt rnd rs = Inr (best, fit, rs')" for best fit rs'
    using that by (rule optimize_fixed)
qed

lemma mixed_mutation:
  "comprehensive_mutation ex_opt slot_rnd [0, 1] (mixed_heap, 0)
   = ([0, 1],
      mixed_heap[1 := (free_entry 2 ''Tuesday'')\<lparr>start_time := (12, 0), end_time := (13, 0)\<rparr>], 4)"
  by code_simp

lemma mixed_trace:
  "map heap (ga_trace ex_opt ex_rnd 1 mixed_s0)
   = [(heap mixed_s0)[1 := (heap mixed_s0 ! 1)\<lparr>day := ''Monday''\<rparr>]]"
  by code_simp

lemma mixed_changed:
  "(heap mixed_s0)[1 := (heap mixed_s0 ! 1)\<lparr>day := ''Monday''\<rparr>] \<noteq> heap mixed_s0"
  by code_simp

theorem fixed_entries_unchanged_witness:
  "comprehensive_mutation ex_opt slot_rnd [0, 1] (mixed_heap, 0)
     = ([0, 1],
        mixed_heap[1 := (free_entry 2 ''Tuesday'')\<lparr>start_time := (12, 0), end_time := (13, 0)\<rparr>], 4)
   \<and> fixed_preserved mixed_heap
        (mixed_heap[1 := (free_entry 2 ''Tuesday'')\<lparr>start_time := (12, 0), end_time := (13, 0)\<rparr>])
   \<and> map heap (ga_trace ex_opt ex_rnd 1 mixed_s0)
       = [(heap mixed_s0)[1 := (heap mixed_s0 ! 1)\<lparr>day := ''Monday''\<rparr>]]
   \<and> (heap mixed_s0)[1 := (heap mixed_s0 ! 1)\<lparr>day := ''Monday''\<rparr>] \<noteq> heap mixed_s0
   \<and> fixed_preserved (heap mixed_s0) ((heap mixed_s0)[1 := (heap mixed_s0 ! 1)\<lparr>day := ''Monday''\<rparr>])"
proof -
  let ?h = "(heap mixed_s0)[1 := (heap mixed_s0 ! 1)\<lparr>day := ''Monday''\<rparr>]"
  have "?h \<in> set (map heap (ga_trace ex_opt ex_rnd 1 mixed_s0))"
    unfolding mixed_trace by simp
  then have "?h \<in> heap ` set (ga_trace ex_opt ex_rnd 1 mixed_s0)"
    by (simp only: set_map)
  then obtain t where t: "t \<in> set (ga_trace ex_opt ex_rnd 1 mixed_s0)" and h: "heap t = ?h"
    by (elim imageE) simp
  from fixed_entries_unchanged [of "heap mixed_s0" ex_opt ex_rnd "[]" 0 1 mixed_s0 ex_rs]
  have "\<forall>t \<in> set (ga_trace ex_opt ex_rnd 1 mixed_s0). fixed_preserved (heap mixed_s0) (heap t)"
    by (elim conjE)
  with t have "fixed_preserved (heap mixed_s0) (heap t)" by (rule bspec[rotated])
  then have a: "fixed_preserved (heap mixed_s0) ?h" by (simp only: h)
  from fixed_entries_unchanged [of mixed_heap ex_opt slot_rnd "[0, 1]" 0 1 mixed_s0 ex_rs]
  have "fixed_preserved mixed_heap
          (fst (snd (comprehensive_mutation ex_opt slot_rnd [0, 1] (mixed_heap, 0))))"
    by (elim conjE)
  then have b: "fixed_preserved mixed_heap
        (mixed_heap[1 := (free_entry 2 ''Tuesday'')\<lparr>start_time := (12, 0), end_time := (13, 0)\<rparr>])"
    by (simp only: mixed_mutation fst_conv snd_conv)
  from a b mixed_mutation mixed_trace mixed_changed show ?thesis by (intro conjI)
qed

subsection \<open>The fixed entries of the best schedule\<close>






lemma holds_schedule_preserved:
  assumes "holds_schedule V st ind" and "\<forall>e \<in> set V. is_fixed e" and "fixed_preserved st st'"
  shows "holds_schedule V st' ind"
proof -
  from assms(1) have b: "\<forall>r \<in> set ind. r < length st" and v: "map ((!) st) ind = V"
    by (simp_all add: holds_schedule_def)
  have "st' ! r = st ! r" if "r \<in> set ind" for r
  proof -
    from that b have lt: "r < length st" by simp
    from that v have "st ! r \<in> set V" by auto
    with assms(2) have "is_fixed (st ! r)" by simp
    with assms(3) lt show ?thesis by (simp add: fixed_preserved_def)
  qed
  then have "map ((!) st') ind = map ((!) st) ind" by simp
  with b v assms(3) show ?thesis by (simp add: holds_schedule_def fixed_preserved_def)
qed






lemma mutation_holds:
  assumes "holds_schedule V st ind" and "\<forall>e \<in> set V. is_fixed e"
  shows "holds_schedule V (fst (snd (comprehensive_mutation opt rnd cand (st, p)))) ind"
  using holds_schedule_preserved[OF assms comprehensive_mutation_fixed(1)] .








subsection \<open>A semester without subjects\<close>

lemma join_inner_empty:
  "\<forall>s \<in> set ys. \<not> Q s \<Longrightarrow> [(x, s). s \<leftarrow> ys, P x s \<and> Q s] = []"
  by (induction ys) auto

lemma join_empty:
  "\<forall>s \<in> set ys. \<not> Q s \<Longrightarrow> [(x, s). x \<leftarrow> xs, s \<leftarrow> ys, P x s \<and> Q s] = []"
  by (induction xs) (simp_all add: join_inner_empty)

lemma load_data_no_subjects:
  assumes "subjects (load_data db semester_id pop gens mrate crate) = []"
  shows "special_classes (load_data db semester_id pop gens mrate crate) = []"
proof -
  from assms have "\<forall>s \<in> set (db_subjects db). \<not> subj_semester_id s = Some semester_id"
    by (simp add: load_data_def filter_empty_conv)
  from join_empty[OF this, of "\<lambda>special s. subj_id s = sc_subject_id special" "db_special_classes db"]
  show ?thesis by (simp add: load_data_def)
qed

lemma create_schedule_empty:
  "special_classes opt = [] \<Longrightarrow> create_comprehensive_schedule opt confs = ([], confs)"
  by (simp add: create_comprehensive_schedule_def enforce_max_classes_per_day_def Let_def
        schedule_lab_sessions_def schedule_electives_advanced_def schedule_theory_classes_def)

lemma initial_population_empty:
  "special_classes opt = [] \<Longrightarrow>
     initial_population opt n (pop, st, confs) = (pop @ replicate n [], st, confs)"
proof (induction n arbitrary: pop)
  case 0
  show ?case by simp
next
  case (Suc n)
  then show ?case
    by (simp add: create_schedule_empty replicate_app_Cons_same)
qed

lemma fitness_empty: "calculate_comprehensive_fitness opt [] = 1000"
  by (simp add: calculate_comprehensive_fitness_def Let_def check_room_conflicts_def
        check_faculty_conflicts_def check_batch_conflicts_def check_capacity_violations_def
        check_shift_violations_def check_max_classes_per_day_violations_def
        check_faculty_availability_violations_def check_special_class_violations_def
        check_lab_conflicts_def check_lab_duration_violations_def
        check_elective_sync_violations_def calculate_classroom_utilization_score_def
        calculate_lab_utilization_score_def calculate_faculty_load_balance_score_def)

lemma metrics_empty: "calculate_solution_metrics opt [] [] = empty_metrics"
  by (simp add: calculate_solution_metrics_def empty_metrics_def Let_def)


lemma individual_fitness_empty: "individual_fitness opt st [] = 1000"
  by (simp add: individual_fitness_def fitness_empty)

lemma generation_empty_population:
  assumes "population s = []" and "population_size opt = 0" and "best_fitness s = 0"
  shows "generation opt rnd s
           = Inr (False, s\<lparr>best_fitness_history := best_fitness_history s @ [0]\<rparr>)"
proof -
  have f: "fill_population opt rnd [] [] [] (heap s, rng_pos s) = Inr ([], heap s, rng_pos s)"
    using assms(2) by (subst fill_population.simps) simp
  show ?thesis
    unfolding generation_unfold
    using assms f by (simp add: track_best_def np_argsort_def np_argmax_def)
qed

lemma ga_loop_empty_population:
  assumes "population s = []" and "population_size opt = 0" and "best_fitness s = 0"
  shows "\<exists>h. ga_loop opt rnd n s = Inr (s\<lparr>best_fitness_history := h\<rparr>)"
  using assms(1,3)
proof (induction n arbitrary: s)
  case 0
  have "s = s\<lparr>best_fitness_history := best_fitness_history s\<rparr>" by simp
  then show ?case by (metis ga_loop.simps(1))
next
  case (Suc n)
  let ?s1 = "s\<lparr>best_fitness_history := best_fitness_history s @ [0]\<rparr>"
  from generation_empty_population[OF Suc.prems(1) assms(2) Suc.prems(2)]
  have g: "generation opt rnd s = Inr (False, ?s1)" .
  from Suc.IH[of ?s1] Suc.prems obtain h where "ga_loop opt rnd n ?s1 = Inr (?s1\<lparr>best_fitness_history := h\<rparr>)"
    by auto
  with g have "ga_loop opt rnd (Suc n) s = Inr (s\<lparr>best_fitness_history := h\<rparr>)" by simp
  then show ?case by blast
qed

lemma generation_all_empty:
  assumes "population s = replicate n []" and "0 < n" and "best_fitness s = 0"
  shows "generation opt rnd s
           = Inr (True, s\<lparr>best_fitness := 1000, best_individual := Some [],
                           best_fitness_history := best_fitness_history s @ [1000]\<rparr>)"
proof -
  let ?fs = "map (individual_fitness opt (heap s)) (population s)"
  have fs: "?fs = replicate n 1000"
    using assms(1) by (simp add: individual_fitness_empty)
  with assms(2) have ne: "?fs \<noteq> []" and mx: "Max (set ?fs) = 1000" by simp_all
  from ne obtain i where i: "np_argmax ?fs = Inr i"
    by (cases ?fs) (simp_all add: np_argmax_def)
  from np_argmax_max[OF i] fs have il: "i < n" by simp
  with assms(1) have pi: "population s ! i = []" by simp
  from il assms(1) have il': "i < length (population s)" by simp
  show ?thesis
    unfolding generation_unfold
    using ne mx i pi il' assms(3) by (simp add: track_best_def)
qed

lemma optimize_empty:
  assumes "special_classes opt = []"
  shows "optimize_with_comprehensive_constraints opt rnd rs = Inr ([], 1000, rs)"
proof -
  let ?n = "population_size opt"
  let ?s0 = "\<lparr>population = replicate ?n [], best_individual = None, best_fitness = 0,
              best_fitness_history = [], heap = rs_heap rs, rng_pos = rs_rng_pos rs\<rparr>"
  have i: "initial_ga_state opt rs = (?s0, rs_conflicts rs)"
    using initial_population_empty[OF assms, of ?n "[]" "rs_heap rs" "rs_conflicts rs"]
    by (simp add: initial_ga_state_def)
  have rs: "\<lparr>rs_heap = rs_heap rs, rs_conflicts = rs_conflicts rs, rs_rng_pos = rs_rng_pos rs\<rparr> = rs"
    by simp
  have r0: "(if replicate ?n ([] :: individual) = [] then [] else replicate ?n [] ! 0) = []"
    by simp
  show ?thesis
  proof (cases "generations opt")
    case 0
    then have "ga_loop opt rnd (generations opt) ?s0 = Inr ?s0" by simp
    with i rs r0 show ?thesis
      by (simp add: optimize_with_comprehensive_constraints_def individual_fitness_empty)
  next
    case (Suc g)
    show ?thesis
    proof (cases "?n = 0")
      case True
      from ga_loop_empty_population[of ?s0 opt rnd "generations opt"] True
      obtain h where "ga_loop opt rnd (generations opt) ?s0 = Inr (?s0\<lparr>best_fitness_history := h\<rparr>)"
        by auto
      with i rs True show ?thesis
        by (simp add: optimize_with_comprehensive_constraints_def individual_fitness_empty)
    next
      case False
      then have "generation opt rnd ?s0
           = Inr (True, ?s0\<lparr>best_fitness := 1000, best_individual := Some [],
                             best_fitness_history := best_fitness_history ?s0 @ [1000]\<rparr>)"
        by (intro generation_all_empty[of _ ?n]) simp_all
      with Suc have "ga_loop opt rnd (generations opt) ?s0
           = Inr (?s0\<lparr>best_fitness := 1000, best_individual := Some [],
                       best_fitness_history := best_fitness_history ?s0 @ [1000]\<rparr>)"
        by simp
      with i rs show ?thesis
        by (simp add: optimize_with_comprehensive_constraints_def)
    qed
  qed
qed


lemma solution_runs_empty:
  assumes "special_classes opt = []" and "rs_conflicts rs = []"
  shows "solution_runs opt rnd is (acc, rs) = Inr (acc @ replicate (length is) empty_solution, rs)"
proof (induction "is" arbitrary: acc)
  case Nil
  show ?case by simp
next
  case (Cons i rest)
  have rs: "rs\<lparr>rs_conflicts := []\<rparr> = rs" using assms(2) by simp
  have "solution_runs opt rnd (i # rest) (acc, rs)
          = solution_runs opt rnd rest (acc @ [empty_solution], rs)"
    by (simp add: Let_def optimize_empty assms rs metrics_empty empty_solution_def)
  also have "\<dots> = Inr ((acc @ [empty_solution]) @ replicate (length rest) empty_solution, rs)"
    by (rule Cons.IH)
  finally show ?case by (simp add: replicate_app_Cons_same)
qed

lemma sort_key_replicate: "sort_key f (replicate n x) = replicate n x"
proof (induction n)
  case 0
  show ?case by simp
next
  case (Suc n)
  then show ?case by (cases n) simp_all
qed

lemma generate_empty:
  assumes "special_classes opt = []" and "rs_conflicts rs = []"
  shows "generate_multiple_optimized_solutions opt rnd num_solutions rs
           = Inr (replicate num_solutions empty_solution, rs)"
  using solution_runs_empty[OF assms, of rnd "[0..<num_solutions]" "[]"]
  by (simp add: generate_multiple_optimized_solutions_def sort_descending_def sort_key_replicate)

text \<open>
  Claim C9, as amended. For a semester without subjects the join leaves no special class, and
  the driver, started with an empty conflict list, returns without raising, for every choice of
  the search parameters and of the random draws: exactly \<open>num_solutions\<close> solutions, each with an
  empty schedule, the fitness 1000 of the empty schedule, zero metrics and an empty conflict
  list, and the state it started from. No component of the result is a notice, and nothing
  precedes the search: each solution is the outcome of a run.
\<close>

theorem empty_semester_solutions:
  assumes "subjects (load_data db semester_id pop gens mrate crate) = []"
    and "rs_conflicts rs = []"
  shows "special_classes (load_data db semester_id pop gens mrate crate) = []
       \<and> generate_multiple_optimized_solutions (load_data db semester_id pop gens mrate crate)
            rnd num_solutions rs
           = Inr (replicate num_solutions empty_solution, rs)
       \<and> optimize_with_comprehensive_constraints (load_data db semester_id pop gens mrate crate)
            rnd rs
           = Inr ([], 1000, rs)"
  using load_data_no_subjects[OF assms(1)] generate_empty[OF _ assms(2)] optimize_empty
  by simp

lemma no_subject_facts:
  "no_subject_opt = load_data (ex_db\<lparr>db_subjects := []\<rparr>) 1 2 2 (1 / 10) (8 / 10)"
  "subjects no_subject_opt = []"
  "special_classes no_subject_opt = []"
  "length (db_special_classes (ex_db\<lparr>db_subjects := []\<rparr>)) = 2"
  "rs_conflicts ex_rs = []"
  by (simp_all add: no_subject_opt_def load_data_def ex_db_def ex_rs_def)

theorem empty_semester_solutions_witness:
  "subjects (load_data (ex_db\<lparr>db_subjects := []\<rparr>) 1 2 2 (1 / 10) (8 / 10)) = []
   \<and> rs_conflicts ex_rs = []
   \<and> generate_multiple_optimized_solutions
        (load_data (ex_db\<lparr>db_subjects := []\<rparr>) 1 2 2 (1 / 10) (8 / 10)) ex_rnd 3 ex_rs
       = Inr ([empty_solution, empty_solution, empty_solution], ex_rs)"
proof -
  have a: "subjects (load_data (ex_db\<lparr>db_subjects := []\<rparr>) 1 2 2 (1 / 10) (8 / 10)) = []"
    using no_subject_facts(1,2) by simp
  have r: "replicate 3 empty_solution = [empty_solution, empty_solution, empty_solution]"
    by (simp add: numeral_3_eq_3)
  from empty_semester_solutions [OF a no_subject_facts(5), of ex_rnd 3] a no_subject_facts(5) r
  show ?thesis by simp
qed

lemma no_subject_search:
  "population (fst (initial_ga_state no_subject_opt ex_rs)) = [[], []]
   \<and> map_sum id (\<lambda>s. (best_individual s, best_fitness_history s))
        (ga_loop no_subject_opt ex_rnd (generations no_subject_opt)
           (fst (initial_ga_state no_subject_opt ex_rs)))
       = Inr (Some [], [1000])"
  by code_simp

theorem empty_semester_counterexample:
  "subjects no_subject_opt = []
   \<and> generate_multiple_optimized_solutions no_subject_opt ex_rnd 3 ex_rs
       = Inr ([empty_solution, empty_solution, empty_solution], ex_rs)
   \<and> map sol_conflicts [empty_solution, empty_solution, empty_solution] = [[], [], []]
   \<and> map sol_fitness [empty_solution, empty_solution, empty_solution] = [1000, 1000, 1000]
   \<and> population (fst (initial_ga_state no_subject_opt ex_rs)) = [[], []]
   \<and> map_sum id (\<lambda>s. (best_individual s, best_fitness_history s))
        (ga_loop no_subject_opt ex_rnd (generations no_subject_opt)
           (fst (initial_ga_state no_subject_opt ex_rs)))
       = Inr (Some [], [1000])"
proof -
  have r: "replicate 3 empty_solution = [empty_solution, empty_solution, empty_solution]"
    by (simp add: numeral_3_eq_3)
  from generate_empty[OF no_subject_facts(3,5), of ex_rnd 3] r
  have g: "generate_multiple_optimized_solutions no_subject_opt ex_rnd 3 ex_rs
       = Inr ([empty_solution, empty_solution, empty_solution], ex_rs)" by simp
  from g no_subject_facts(2) no_subject_search show ?thesis
    by (simp add: empty_solution_def)
qed

subsection \<open>Capacity and room conflicts in the evaluation\<close>

text \<open>
  Claim C4, evaluated on the code. A batch of 70 students is placed in a classroom of capacity
  60. \<open>check_capacity_violations\<close> returns zero, as it does for every schedule; the fitness is
  2050, the same as with a classroom of capacity 80, and not lower by the weight 160; the run
  records no conflict.
\<close>

theorem capacity_violation_not_penalised:
  "check_capacity_violations opt schedule = 0
   \<and> map student_count (batches (cap_opt 60)) = [70]
   \<and> map room_capacity (classrooms (cap_opt 60)) = [60]
   \<and> map room_capacity (classrooms (cap_opt 80)) = [80]
   \<and> create_comprehensive_schedule (cap_opt 60) [] = ([cap_entry], [])
   \<and> venue_id cap_entry = 1 \<and> venue_type cap_entry = ''classroom'' \<and> batch_id cap_entry = 1
   \<and> calculate_comprehensive_fitness (cap_opt 60) [cap_entry] = 2050
   \<and> calculate_comprehensive_fitness (cap_opt 80) [cap_entry] = 2050
   \<and> w_capacity_violations = 160
   \<and> optimize_with_comprehensive_constraints (cap_opt 60) ex_rnd ex_rs = Inr ([0], 2050, cap_rs1)
   \<and> rs_conflicts cap_rs1 = []"
proof -
  have a: "check_capacity_violations opt schedule = 0" by (simp add: check_capacity_violations_def)
  have b: "map student_count (batches (cap_opt 60)) = [70]" by code_simp
  have c: "map room_capacity (classrooms (cap_opt 60)) = [60]" by code_simp
  have d: "map room_capacity (classrooms (cap_opt 80)) = [80]" by code_simp
  have e: "create_comprehensive_schedule (cap_opt 60) [] = ([cap_entry], [])" by code_simp
  have f: "venue_id cap_entry = 1 \<and> venue_type cap_entry = ''classroom'' \<and> batch_id cap_entry = 1"
    by (simp add: cap_entry_def)
  have g: "calculate_comprehensive_fitness (cap_opt 60) [cap_entry] = 2050" by code_simp
  have h: "calculate_comprehensive_fitness (cap_opt 80) [cap_entry] = 2050" by code_simp
  have i: "w_capacity_violations = 160" by (simp add: w_capacity_violations_def)
  have j: "optimize_with_comprehensive_constraints (cap_opt 60) ex_rnd ex_rs = Inr ([0], 2050, cap_rs1)"
    by code_simp
  have k: "rs_conflicts cap_rs1 = []" by (simp add: cap_rs1_def)
  from a b c d e f g h i j k show ?thesis by (intro conjI) simp_all
qed

text \<open>
  Claim C5, evaluated on the code. Two entries occupy classroom 1 on Monday at overlapping
  times. \<open>check_room_conflicts\<close> returns zero, as it does for every schedule; the fitness is 2050,
  the same as when the second entry is moved to Tuesday, and not lower by the weight 200; the
  run records no conflict, and an entry has no identifier a conflict could refer to.
\<close>

theorem room_conflict_not_detected:
  "check_room_conflicts opt schedule = 0
   \<and> create_comprehensive_schedule clash_opt [] = ([cap_entry, clash_entry], [])
   \<and> venue_id cap_entry = venue_id clash_entry \<and> venue_type cap_entry = venue_type clash_entry
   \<and> day cap_entry = day clash_entry
   \<and> start_time cap_entry = (9, 0) \<and> end_time cap_entry = (10, 0)
   \<and> start_time clash_entry = (9, 30) \<and> end_time clash_entry = (10, 30)
   \<and> calculate_comprehensive_fitness clash_opt [cap_entry, clash_entry] = 2050
   \<and> calculate_comprehensive_fitness clash_opt [cap_entry, clash_entry\<lparr>day := ''Tuesday''\<rparr>] = 2050
   \<and> w_room_conflicts = 200
   \<and> map_sum id (\<lambda>r. (fst r, fst (snd r), rs_conflicts (snd (snd r))))
        (optimize_with_comprehensive_constraints clash_opt ex_rnd ex_rs) = Inr ([0, 1], 2050, [])"
proof -
  have a: "check_room_conflicts opt schedule = 0" by (simp add: check_room_conflicts_def)
  have b: "create_comprehensive_schedule clash_opt [] = ([cap_entry, clash_entry], [])" by code_simp
  have c: "venue_id cap_entry = venue_id clash_entry \<and> venue_type cap_entry = venue_type clash_entry
   \<and> day cap_entry = day clash_entry
   \<and> start_time cap_entry = (9, 0) \<and> end_time cap_entry = (10, 0)
   \<and> start_time clash_entry = (9, 30) \<and> end_time clash_entry = (10, 30)"
    by (simp add: cap_entry_def clash_entry_def)
  have d: "calculate_comprehensive_fitness clash_opt [cap_entry, clash_entry] = 2050" by code_simp
  have e: "calculate_comprehensive_fitness clash_opt [cap_entry, clash_entry\<lparr>day := ''Tuesday''\<rparr>] = 2050"
    by code_simp
  have f: "w_room_conflicts = 200" by (simp add: w_room_conflicts_def)
  have g: "map_sum id (\<lambda>r. (fst r, fst (snd r), rs_conflicts (snd (snd r))))
        (optimize_with_comprehensive_constraints clash_opt ex_rnd ex_rs) = Inr ([0, 1], 2050, [])"
    by code_simp
  from a b c d e f g show ?thesis by (intro conjI) simp_all
qed

subsection \<open>The best schedule of a run\<close>







end
